theory Spec2Isabelle
  imports Complex_Main "HOL-Library.AList" "HOL-Library.Sublist"
    "HOL-Library.Char_ord" "HOL-Library.List_Lexorder"
begin

section \<open>Data model\<close>

text \<open>
  The development follows the TypeScript sources of mcp-discovery:
  \<^verbatim>\<open>registry/ServerRegistry.ts\<close>, \<^verbatim>\<open>routing/rankToolsForQuery.ts\<close>,
  \<^verbatim>\<open>mcp/client/stdioClient.ts\<close>, \<^verbatim>\<open>mcp/client/httpClient.ts\<close> and
  \<^verbatim>\<open>config/schema.ts\<close>.

  Conventions of the embedding.
  \<^item> A JavaScript string is the list of its UTF-16 code units, as a \<^typ>\<open>string\<close>: the
    code units are the ones below 256 (the Latin-1 range), which is what a \<^typ>\<open>char\<close>
    holds.
  \<^item> An opaque JSON value (an input schema, the arguments of a tool call) is carried as
    its text.
  \<^item> A \<^verbatim>\<open>Map<string, V>\<close> is an association list in insertion order;
    \<^verbatim>\<open>Map.set\<close> is \<^const>\<open>AList.update\<close> (an existing key keeps its position),
    \<^verbatim>\<open>Map.get\<close> is \<^const>\<open>map_of\<close>, and the in-place mutation of the object
    stored under a key is \<^const>\<open>AList.map_entry\<close>.
  \<^item> A thrown \<^verbatim>\<open>Error\<close> is its message; an operation that can throw returns
    \<^typ>\<open>string + 'a\<close> with \<^const>\<open>Inl\<close> carrying the message.
  \<^item> An \<^verbatim>\<open>async\<close> method is run to completion; the calls it makes on client
    objects are returned as a list, in the order they are made. Two calls of
    \<^verbatim>\<open>listTools\<close> that overlap are modelled apart, from the two parts of the method.
  \<^item> \<^verbatim>\<open>Date.now()\<close>, the outcome of Node's \<^verbatim>\<open>spawn\<close> and the answers of the
    MCP SDK (the process behind a client) are inputs, collected in the record \<open>Env\<close>.
  \<^item> A JavaScript number is the rational it denotes, and every arithmetic operation of
    the ranker that can round is followed by the rounding to the nearest double.
\<close>

type_synonym json = string

record ToolInfo =
  tool_name :: string
  tool_title :: "string option"
  tool_description :: "string option"
  inputSchema :: "json option"

record ToolCallResult =
  content :: "string list"
  isError :: "bool option"

text \<open>
  \<^verbatim>\<open>TransportConfig\<close> is the union discriminated by \<^verbatim>\<open>type\<close>. The third
  constructor stands for a value whose tag is neither \<^verbatim>\<open>"stdio"\<close> nor
  \<^verbatim>\<open>"http"\<close>: the schema rejects it, and the \<^verbatim>\<open>default\<close> branch of the switch
  in \<^verbatim>\<open>getClient\<close> is what handles it.
\<close>

datatype TransportConfig =
    StdioTransport (command: string) (args: "string list")
  | HttpTransport (url: string)
  | OtherTransport (transport_type: string)

record ServerConfig =
  server_id :: string
  server_name :: string
  server_description :: "string option"
  transport :: TransportConfig
  enabled :: bool
  tags :: "string list"

record DiscoveryConfig =
  cfg_servers :: "ServerConfig list"
  routing_maxResults :: int
  routing_cacheTtlMs :: int

section \<open>The MCP clients\<close>

text \<open>
  What the world outside the process answers during one operation: the clock; whether
  Node's \<^verbatim>\<open>spawn(command, args)\<close> returns a child process (\<open>None\<close>) or throws at
  once with a message, as it does for an empty command; and for each upstream id whether
  the SDK's \<^verbatim>\<open>connect\<close> resolves (\<open>None\<close>) or rejects with a message, and what its
  \<^verbatim>\<open>listTools\<close> and \<^verbatim>\<open>callTool\<close> give.
\<close>

record Env =
  Date_now :: int
  node_spawn :: "string \<Rightarrow> string list \<Rightarrow> string option"
  sdk_connect :: "string \<Rightarrow> string option"
  sdk_listTools :: "string \<Rightarrow> string + ToolInfo list"
  sdk_callTool :: "string \<Rightarrow> string \<Rightarrow> json \<Rightarrow> string + (string list \<times> bool option)"

text \<open>
  The two implementations of \<^verbatim>\<open>McpClient\<close>. \<open>sdk_client\<close> says that the field
  \<^verbatim>\<open>this.client\<close> of a stdio client is not null; \<open>connected\<close> is
  \<^verbatim>\<open>this._connected\<close>.
\<close>

datatype McpClient =
    StdioMcpClient (serverId: string) (stdio_command: string) (stdio_args: "string list")
      (sdk_client: bool) (connected: bool)
  | HttpMcpClient (serverId: string) (http_url: string) (connected: bool)

definition failed_to_connect :: "string \<Rightarrow> string \<Rightarrow> string" where
  \<open>failed_to_connect sid msg = ''Failed to connect to server "'' @ sid @ ''": '' @ msg\<close>

definition http_not_implemented :: "string \<Rightarrow> string \<Rightarrow> string" where
  \<open>http_not_implemented sid u =
     ''HTTP transport not yet implemented for server "'' @ sid @ ''". '' @
     ''URL: '' @ u @ ''. Use stdio transport for now.''\<close>

definition client_not_connected :: "string \<Rightarrow> string" where
  \<open>client_not_connected sid = ''Client not connected for server "'' @ sid @ ''"''\<close>

definition unknown_server :: "string \<Rightarrow> string" where
  \<open>unknown_server sid = ''Unknown server: "'' @ sid @ ''"''\<close>

definition unknown_transport :: "string \<Rightarrow> string" where
  \<open>unknown_transport sid = ''Unknown transport type for server "'' @ sid @ ''"''\<close>

fun McpClient_close :: "McpClient \<Rightarrow> McpClient" where
  "McpClient_close (StdioMcpClient sid cmd as cl conn) = StdioMcpClient sid cmd as False False"
| "McpClient_close (HttpMcpClient sid u conn) = HttpMcpClient sid u False"

text \<open>
  \<^verbatim>\<open>connect()\<close> returns the error it throws, if any, and the client object as the
  call leaves it. A stdio client first creates the SDK client and calls \<^verbatim>\<open>spawn\<close>,
  outside any \<^verbatim>\<open>try\<close>: when \<^verbatim>\<open>spawn\<close> throws, \<^verbatim>\<open>connect\<close> rejects with that
  very error and nothing is closed. Otherwise, when the SDK connect rejects, the client
  closes itself and throws a new error that carries the server id. An http client always
  throws.
\<close>

fun McpClient_connect :: "Env \<Rightarrow> McpClient \<Rightarrow> string option \<times> McpClient" where
  "McpClient_connect env (StdioMcpClient sid cmd as cl conn) =
     (if conn then (None, StdioMcpClient sid cmd as cl conn)
      else (case node_spawn env cmd as of
              Some thrown \<Rightarrow> (Some thrown, StdioMcpClient sid cmd as True False)
            | None \<Rightarrow>
                (case sdk_connect env sid of
                   None \<Rightarrow> (None, StdioMcpClient sid cmd as True True)
                 | Some msg \<Rightarrow>
                     (Some (failed_to_connect sid msg),
                      McpClient_close (StdioMcpClient sid cmd as True False)))))"
| "McpClient_connect env (HttpMcpClient sid u conn) =
     (Some (http_not_implemented sid u), HttpMcpClient sid u conn)"

fun McpClient_listTools :: "Env \<Rightarrow> McpClient \<Rightarrow> string + ToolInfo list" where
  "McpClient_listTools env (StdioMcpClient sid cmd as cl conn) =
     (if \<not> conn \<or> \<not> cl then Inl (client_not_connected sid)
      else (case sdk_listTools env sid of
              Inl msg \<Rightarrow> Inl msg
            | Inr ts \<Rightarrow>
                Inr (map (\<lambda>tool. \<lparr>tool_name = tool_name tool, tool_title = tool_title tool,
                                  tool_description = tool_description tool,
                                  inputSchema = inputSchema tool\<rparr>) ts)))"
| "McpClient_listTools env (HttpMcpClient sid u conn) =
     (if \<not> conn then Inl (client_not_connected sid)
      else Inl ''HTTP transport not yet implemented'')"

fun McpClient_callTool :: "Env \<Rightarrow> McpClient \<Rightarrow> string \<Rightarrow> json \<Rightarrow> string + ToolCallResult" where
  "McpClient_callTool env (StdioMcpClient sid cmd as cl conn) toolName targs =
     (if \<not> conn \<or> \<not> cl then Inl (client_not_connected sid)
      else (case sdk_callTool env sid toolName targs of
              Inl msg \<Rightarrow> Inl msg
            | Inr (c, e) \<Rightarrow> Inr \<lparr>content = c, isError = Some (e = Some True)\<rparr>))"
| "McpClient_callTool env (HttpMcpClient sid u conn) toolName targs =
     (if \<not> conn then Inl (client_not_connected sid)
      else Inl ''HTTP transport not yet implemented'')"

section \<open>The server registry\<close>

record CachedTools =
  tools :: "ToolInfo list"
  fetchedAt :: int

record RegisteredServer =
  config :: ServerConfig
  client :: "McpClient option"
  cachedTools :: "CachedTools option"

record ServerRegistry =
  servers :: "(string \<times> RegisteredServer) list"
  cacheTtlMs :: int

text \<open>The calls a registry operation makes on client objects.\<close>

datatype call =
    Connect string
  | ListTools string
  | CallTool string string json
  | Close string

definition new_ServerRegistry :: "DiscoveryConfig \<Rightarrow> ServerRegistry" where
  "new_ServerRegistry cfg =
     \<lparr>servers =
        fold (\<lambda>serverConfig m.
                if enabled serverConfig
                then AList.update (server_id serverConfig)
                       \<lparr>config = serverConfig, client = None, cachedTools = None\<rparr> m
                else m)
             (cfg_servers cfg) [],
      cacheTtlMs = routing_cacheTtlMs cfg\<rparr>"

definition getServerIds :: "ServerRegistry \<Rightarrow> string list" where
  "getServerIds reg = map fst (servers reg)"

definition getServerConfig :: "ServerRegistry \<Rightarrow> string \<Rightarrow> ServerConfig option" where
  "getServerConfig reg sid = map_option config (map_of (servers reg) sid)"

definition getAllServerConfigs :: "ServerRegistry \<Rightarrow> ServerConfig list" where
  "getAllServerConfigs reg = map (\<lambda>s. config (snd s)) (servers reg)"

definition hasServer :: "ServerRegistry \<Rightarrow> string \<Rightarrow> bool" where
  "hasServer reg sid = (map_of (servers reg) sid \<noteq> None)"

text \<open>The \<^verbatim>\<open>switch (transport.type)\<close> of \<^verbatim>\<open>getClient\<close>.\<close>

fun new_client :: "string \<Rightarrow> TransportConfig \<Rightarrow> McpClient option" where
  "new_client sid (StdioTransport cmd as) = Some (StdioMcpClient sid cmd as False False)"
| "new_client sid (HttpTransport u) = Some (HttpMcpClient sid u False)"
| "new_client sid (OtherTransport t) = None"

definition set_client :: "string \<Rightarrow> McpClient option \<Rightarrow> ServerRegistry \<Rightarrow> ServerRegistry" where
  "set_client sid c reg =
     reg\<lparr>servers := AList.map_entry sid (\<lambda>s. s\<lparr>client := c\<rparr>) (servers reg)\<rparr>"

definition set_cachedTools :: "string \<Rightarrow> CachedTools option \<Rightarrow> ServerRegistry \<Rightarrow> ServerRegistry" where
  "set_cachedTools sid c reg =
     reg\<lparr>servers := AList.map_entry sid (\<lambda>s. s\<lparr>cachedTools := c\<rparr>) (servers reg)\<rparr>"

definition getClient ::
  "Env \<Rightarrow> ServerRegistry \<Rightarrow> string \<Rightarrow> (string + McpClient) \<times> ServerRegistry \<times> call list" where
  "getClient env reg sid =
     (case map_of (servers reg) sid of
        None \<Rightarrow> (Inl (unknown_server sid), reg, [])
      | Some server \<Rightarrow>
          if (case client server of Some c \<Rightarrow> connected c | None \<Rightarrow> False)
          then (Inr (the (client server)), reg, [])
          else (case new_client sid (transport (config server)) of
                  None \<Rightarrow> (Inl (unknown_transport sid), reg, [])
                | Some c \<Rightarrow>
                    (case McpClient_connect env c of
                       (Some err, c') \<Rightarrow> (Inl err, reg, [Connect sid])
                     | (None, c') \<Rightarrow> (Inr c', set_client sid (Some c') reg, [Connect sid]))))"

definition listTools ::
  "Env \<Rightarrow> ServerRegistry \<Rightarrow> string \<Rightarrow> (string + ToolInfo list) \<times> ServerRegistry \<times> call list" where
  "listTools env reg sid =
     (case map_of (servers reg) sid of
        None \<Rightarrow> (Inl (unknown_server sid), reg, [])
      | Some server \<Rightarrow>
          let now = Date_now env in
          if (case cachedTools server of
                Some cached \<Rightarrow> now - fetchedAt cached < cacheTtlMs reg
              | None \<Rightarrow> False)
          then (Inr (tools (the (cachedTools server))), reg, [])
          else (case getClient env reg sid of
                  (Inl err, reg1, cs) \<Rightarrow> (Inl err, reg1, cs)
                | (Inr c, reg1, cs) \<Rightarrow>
                    (case McpClient_listTools env c of
                       Inl err \<Rightarrow> (Inl err, reg1, cs @ [ListTools sid])
                     | Inr ts \<Rightarrow>
                         (Inr ts,
                          set_cachedTools sid (Some \<lparr>tools = ts, fetchedAt = now\<rparr>) reg1,
                          cs @ [ListTools sid]))))"

text \<open>
  \<^verbatim>\<open>listTools\<close> in its two parts. The first runs without interruption: the lookup
  and the test of the cache; it ends the call (unknown id, or a fresh snapshot) or hands
  on the time it read. The second starts at the first \<^verbatim>\<open>await\<close>: connect, fetch, and
  store under the time read before.
\<close>

definition listTools_check ::
  "Env \<Rightarrow> ServerRegistry \<Rightarrow> string \<Rightarrow> (string + ToolInfo list) + int" where
  "listTools_check env reg sid =
     (case map_of (servers reg) sid of
        None \<Rightarrow> Inl (Inl (unknown_server sid))
      | Some server \<Rightarrow>
          let now = Date_now env in
          if (case cachedTools server of
                Some cached \<Rightarrow> now - fetchedAt cached < cacheTtlMs reg
              | None \<Rightarrow> False)
          then Inl (Inr (tools (the (cachedTools server))))
          else Inr now)"

definition listTools_fetch ::
  "Env \<Rightarrow> int \<Rightarrow> ServerRegistry \<Rightarrow> string \<Rightarrow>
     (string + ToolInfo list) \<times> ServerRegistry \<times> call list" where
  "listTools_fetch env now reg sid =
     (case getClient env reg sid of
        (Inl err, reg1, cs) \<Rightarrow> (Inl err, reg1, cs)
      | (Inr c, reg1, cs) \<Rightarrow>
          (case McpClient_listTools env c of
             Inl err \<Rightarrow> (Inl err, reg1, cs @ [ListTools sid])
           | Inr ts \<Rightarrow>
               (Inr ts,
                set_cachedTools sid (Some \<lparr>tools = ts, fetchedAt = now\<rparr>) reg1,
                cs @ [ListTools sid])))"

text \<open>
  Two calls for the same id that overlap: the second call arrives while the first waits
  for the answer of \<^verbatim>\<open>client.listTools()\<close>, so both tests of the cache see the
  registry as it was, and the fetch of the second call answers after the first call has
  stored its snapshot. The results of both calls, the registry and the calls on clients.
\<close>

definition listTools_overlapped ::
  "Env \<Rightarrow> Env \<Rightarrow> ServerRegistry \<Rightarrow> string \<Rightarrow>
     (string + ToolInfo list) \<times> (string + ToolInfo list) \<times> ServerRegistry \<times> call list" where
  "listTools_overlapped env1 env2 reg sid =
     (case listTools_check env1 reg sid of
        Inl r1 \<Rightarrow>
          (case listTools env2 reg sid of (r2, reg2, cs2) \<Rightarrow> (r1, r2, reg2, cs2))
      | Inr now1 \<Rightarrow>
          (case listTools_check env2 reg sid of
             Inl r2 \<Rightarrow>
               (case listTools_fetch env1 now1 reg sid of
                  (r1, reg1, cs1) \<Rightarrow> (r1, r2, reg1, cs1))
           | Inr now2 \<Rightarrow>
               (case listTools_fetch env1 now1 reg sid of
                  (r1, reg1, cs1) \<Rightarrow>
                    (case listTools_fetch env2 now2 reg1 sid of
                       (r2, reg2, cs2) \<Rightarrow> (r1, r2, reg2, cs1 @ cs2)))))"

text \<open>
  \<^verbatim>\<open>listAllTools\<close> starts one \<^verbatim>\<open>listTools\<close> per registered id and joins them.
  The calls work on different slots of the map, so they are run one after the other, in
  the order of the ids; a rejected call becomes the empty list.
\<close>

fun listAllTools_each ::
  "Env \<Rightarrow> string list \<Rightarrow> ServerRegistry \<Rightarrow>
     (string \<times> ToolInfo list) list \<times> ServerRegistry \<times> call list" where
  "listAllTools_each env [] reg = ([], reg, [])"
| "listAllTools_each env (sid # sids) reg =
     (case listTools env reg sid of
        (r, reg1, cs1) \<Rightarrow>
          (case listAllTools_each env sids reg1 of
             (rest, reg2, cs2) \<Rightarrow>
               ((sid, case r of Inr ts \<Rightarrow> ts | Inl err \<Rightarrow> []) # rest, reg2, cs1 @ cs2)))"

definition listAllTools ::
  "Env \<Rightarrow> ServerRegistry \<Rightarrow> (string \<times> ToolInfo list) list \<times> ServerRegistry \<times> call list" where
  "listAllTools env reg =
     (case listAllTools_each env (getServerIds reg) reg of
        (toolResults, reg', cs) \<Rightarrow>
          (fold (\<lambda>(sid, ts) results. AList.update sid ts results) toolResults [], reg', cs))"

definition callTool ::
  "Env \<Rightarrow> ServerRegistry \<Rightarrow> string \<Rightarrow> string \<Rightarrow> json \<Rightarrow>
     (string + ToolCallResult) \<times> ServerRegistry \<times> call list" where
  "callTool env reg sid toolName targs =
     (case getClient env reg sid of
        (Inl err, reg1, cs) \<Rightarrow> (Inl err, reg1, cs)
      | (Inr c, reg1, cs) \<Rightarrow>
          (McpClient_callTool env c toolName targs, reg1, cs @ [CallTool sid toolName targs]))"

text \<open>
  \<^verbatim>\<open>closeAll\<close>: every slot that holds a client has it closed and set to null. A
  rejected \<^verbatim>\<open>close\<close> is caught and logged, so the operation has no error result.
\<close>

definition closeAll :: "ServerRegistry \<Rightarrow> ServerRegistry \<times> call list" where
  "closeAll reg =
     (reg\<lparr>servers :=
        map (\<lambda>(k, server). (k, if client server \<noteq> None then server\<lparr>client := None\<rparr> else server))
            (servers reg)\<rparr>,
      concat (map (\<lambda>(k, server). case client server of
                                    Some c \<Rightarrow> [Close (serverId c)]
                                  | None \<Rightarrow> [])
                  (servers reg)))"

text \<open>
  \<^verbatim>\<open>invalidateCache(serverId?)\<close>. The test \<^verbatim>\<open>if (serverId)\<close> is on the truthiness
  of the argument: \<^verbatim>\<open>undefined\<close> and the empty string both take the else branch.
\<close>

definition invalidateCache :: "ServerRegistry \<Rightarrow> string option \<Rightarrow> ServerRegistry" where
  "invalidateCache reg sid_arg =
     (if sid_arg \<noteq> None \<and> sid_arg \<noteq> Some []
      then (case map_of (servers reg) (the sid_arg) of
              Some server \<Rightarrow> set_cachedTools (the sid_arg) None reg
            | None \<Rightarrow> reg)
      else reg\<lparr>servers := map (\<lambda>(k, server). (k, server\<lparr>cachedTools := None\<rparr>)) (servers reg)\<rparr>)"

text \<open>
  The keys of a \<^verbatim>\<open>Map\<close> are distinct; every registry the constructor builds, and every
  registry an operation returns from such a one, satisfies this.
\<close>

definition registry_ok :: "ServerRegistry \<Rightarrow> bool" where
  "registry_ok reg = distinct (map fst (servers reg))"

section \<open>The ranker\<close>

text \<open>
  A \<^verbatim>\<open>Set<string>\<close> is the list of its elements in insertion order. A JavaScript
  \<^verbatim>\<open>number\<close> is an IEEE double, held as the rational it denotes; how the arithmetic
  rounds is written out below.
\<close>

text \<open>
  \<^verbatim>\<open>String.toLowerCase\<close> on code units below 256: the letters \<open>A\<close> to \<open>Z\<close> and the
  capital letters of Latin-1 (\<open>U+00C0\<close> to \<open>U+00DE\<close> without the multiplication sign
  \<open>U+00D7\<close>) move up by 32; every other code unit stays.
\<close>

definition toLowerCase_unit :: "char \<Rightarrow> char" where
  "toLowerCase_unit c =
     (let n = (of_char c :: nat)
      in if (65 \<le> n \<and> n \<le> 90) \<or> (192 \<le> n \<and> n \<le> 214) \<or> (216 \<le> n \<and> n \<le> 222)
         then char_of (n + 32) else c)"

definition toLowerCase :: "string \<Rightarrow> string" where
  "toLowerCase text = map toLowerCase_unit text"

text \<open>
  The character class of the regular expression in \<^verbatim>\<open>tokenize\<close>: the white space
  of \<^verbatim>\<open>\s\<close> (below 256 these are tab, line feed, vertical tab, form feed, carriage
  return, space and the no-break space \<open>U+00A0\<close>), and the punctuation characters it
  lists.
\<close>

definition is_separator :: "char \<Rightarrow> bool" where
  "is_separator c =
     (c \<in> set ([CHR 0x09, CHR 0x0A, CHR 0x0B, CHR 0x0C, CHR 0x0D, CHR 0x20, CHR 0xA0] @
               ''-_.,;:!?()[]{}'' @ [CHR 0x27, CHR 0x22, CHR 0x2F, CHR 0x5C]))"

text \<open>
  \<^verbatim>\<open>String.split\<close> at maximal runs of separators: the piece being read, whether the
  last character was a separator, and the rest of the text.
\<close>

fun split_separators :: "string \<Rightarrow> bool \<Rightarrow> string \<Rightarrow> string list" where
  "split_separators cur in_run [] = [cur]"
| "split_separators cur in_run (c # cs) =
     (if is_separator c
      then (if in_run then split_separators cur True cs
            else cur # split_separators [] True cs)
      else split_separators (cur @ [c]) False cs)"

definition tokenize :: "string \<Rightarrow> string list" where
  "tokenize text =
     filter (\<lambda>t. length t > 0) (split_separators [] False (toLowerCase text))"

definition new_Set :: "'a list \<Rightarrow> 'a list" where
  "new_Set xs = fold (\<lambda>x s. if x \<in> set s then s else s @ [x]) xs []"

definition String_includes :: "string \<Rightarrow> string \<Rightarrow> bool" where
  "String_includes s t = sublist t s"

fun join :: "string \<Rightarrow> string list \<Rightarrow> string" where
  "join sep [] = []"
| "join sep [x] = x"
| "join sep (x # y # ys) = x @ sep @ join sep (y # ys)"

text \<open>\<^verbatim>\<open>Array.slice(0, end)\<close>: a negative \<open>end\<close> counts from the end of the array.\<close>

definition slice0 :: "'a list \<Rightarrow> int \<Rightarrow> 'a list" where
  "slice0 xs e = (if e < 0 then take (nat (int (length xs) + e)) xs else take (nat e) xs)"

text \<open>The inner loop of \<^verbatim>\<open>calculateOverlapScore\<close>: half a point at the first hit.\<close>

fun partial_award :: "string \<Rightarrow> string list \<Rightarrow> rat" where
  "partial_award queryToken [] = 0"
| "partial_award queryToken (targetToken # rest) =
     (if String_includes targetToken queryToken \<or> String_includes queryToken targetToken then 0.5
      else partial_award queryToken rest)"

fun overlap_loop :: "string list \<Rightarrow> string list \<Rightarrow> rat \<Rightarrow> rat" where
  "overlap_loop [] targetTokens matches = matches"
| "overlap_loop (queryToken # rest) targetTokens matches =
     (if queryToken \<in> set targetTokens then overlap_loop rest targetTokens (matches + 1)
      else overlap_loop rest targetTokens (matches + partial_award queryToken targetTokens))"

definition calculateOverlapScore :: "string list \<Rightarrow> string list \<Rightarrow> rat" where
  "calculateOverlapScore queryTokens targetTokens =
     (if length queryTokens = 0 \<or> length targetTokens = 0 then 0
      else overlap_loop queryTokens targetTokens 0 / of_nat (length queryTokens))"

text \<open>
  The overlap score as the specification words it: per query token an award of \<open>1\<close> on an
  exact match, else \<open>0.5\<close> if some target token contains the query token or is contained in
  it, else nothing; the awards are summed and divided by the number of query tokens.
\<close>

definition award_spec :: "string \<Rightarrow> string list \<Rightarrow> rat" where
  "award_spec q targets =
     (if q \<in> set targets then 1
      else if \<exists>t \<in> set targets. sublist q t \<or> sublist t q then 1 / 2
      else 0)"

definition overlap_score_spec :: "string list \<Rightarrow> string list \<Rightarrow> rat" where
  "overlap_score_spec qs targets = (\<Sum>q\<leftarrow>qs. award_spec q targets) / of_nat (length qs)"

text \<open>The inner loops of \<^verbatim>\<open>buildReason\<close>: the first token that matches, if any.\<close>

fun first_match :: "string \<Rightarrow> string list \<Rightarrow> string option" where
  "first_match qt [] = None"
| "first_match qt (st # rest) =
     (if st = qt \<or> String_includes st qt \<or> String_includes qt st then Some st else first_match qt rest)"

fun buildReason_loop ::
  "string list \<Rightarrow> string list \<Rightarrow> string list \<Rightarrow> string list \<times> string list \<Rightarrow>
     string list \<times> string list" where
  "buildReason_loop [] serverTokens toolTokens acc = acc"
| "buildReason_loop (qt # rest) serverTokens toolTokens (serverMatches, toolMatches) =
     buildReason_loop rest serverTokens toolTokens
       (case first_match qt serverTokens of
          Some st \<Rightarrow> serverMatches @ [st]
        | None \<Rightarrow> serverMatches,
        case first_match qt toolTokens of
          Some tt \<Rightarrow> toolMatches @ [tt]
        | None \<Rightarrow> toolMatches)"

definition buildReason :: "string list \<Rightarrow> string list \<Rightarrow> string list \<Rightarrow> string" where
  "buildReason queryTokens serverTokens toolTokens =
     (case buildReason_loop queryTokens serverTokens toolTokens ([], []) of
        (serverMatches, toolMatches) \<Rightarrow>
          let parts =
                (if length serverMatches > 0
                 then [''server matches: '' @ join '', '' (slice0 (new_Set serverMatches) 3)]
                 else []) @
                (if length toolMatches > 0
                 then [''tool matches: '' @ join '', '' (slice0 (new_Set toolMatches) 3)]
                 else [])
          in if length parts > 0 then join ''; '' parts else ''low relevance match'')"

record RankedTool =
  ranked_serverId :: string
  serverName :: string
  toolName :: string
  toolDescription :: "string option"
  score :: rat
  reason :: string

text \<open>
  IEEE 754 binary64. A finite double is the rational it denotes. \<open>double x\<close> is the double
  nearest to \<open>x\<close>, a tie going to the even significand: with \<open>e\<close> the exponent of the last
  place (\<open>52\<close> below the binary exponent of \<open>x\<close>, and not below \<open>-1074\<close>, where the
  subnormal numbers are), \<open>x\<close> is rounded to a multiple of \<open>2 ^ e\<close>. The sum, product and
  quotient of two doubles are the exact result rounded by \<open>double\<close>. Overflow to infinity
  is left out: the numbers of the ranker lie between \<open>0\<close> and \<open>100\<close>.
\<close>

function bit_length :: "int \<Rightarrow> int" where
  "bit_length n = (if n \<le> 0 then 0 else 1 + bit_length (n div 2))"
  by pat_completeness auto
termination
  by (relation "measure nat") auto

definition pow2 :: "int \<Rightarrow> rat" where
  "pow2 e = (if 0 \<le> e then 2 ^ nat e else 1 / 2 ^ nat (- e))"

definition floor_log2 :: "rat \<Rightarrow> int" where
  "floor_log2 x =
     (case quotient_of x of
        (p, q) \<Rightarrow>
          let l = bit_length p - bit_length q
          in if pow2 l \<le> x then l else l - 1)"

definition round_half_even :: "rat \<Rightarrow> int" where
  "round_half_even y =
     (let f = \<lfloor>y\<rfloor>; r = y - of_int f
      in if r < 1 / 2 then f else if 1 / 2 < r then f + 1 else if even f then f else f + 1)"

definition double :: "rat \<Rightarrow> rat" where
  "double x =
     (if x = 0 then 0
      else let a = \<bar>x\<bar>;
               e = max (floor_log2 a - 52) (- 1074);
               m = round_half_even (a / pow2 e)
           in sgn x * of_int m * pow2 e)"

text \<open>
  \<^verbatim>\<open>Math.round\<close>: the nearest integer, a half rounded up; the result is exact.
\<close>

definition Math_round :: "rat \<Rightarrow> int" where
  "Math_round x = \<lfloor>x + 1 / 2\<rfloor>"

definition serverText :: "ServerConfig \<Rightarrow> string" where
  "serverText cfg =
     join '' '' ([server_name cfg,
                  case server_description cfg of Some d \<Rightarrow> d | None \<Rightarrow> []] @ tags cfg)"

definition toolText :: "ToolInfo \<Rightarrow> string" where
  "toolText tool =
     join '' '' [tool_name tool,
                 case tool_title tool of Some t \<Rightarrow> t | None \<Rightarrow> [],
                 case tool_description tool of Some d \<Rightarrow> d | None \<Rightarrow> []]"

text \<open>
  The value that \<^verbatim>\<open>calculateOverlapScore\<close> returns in the code. The sum of the awards
  and the number of query tokens are exact in doubles, so the quotient that the code
  returns is the exact quotient, which \<^const>\<open>calculateOverlapScore\<close> gives, rounded once.
\<close>

definition calculateOverlapScore_number :: "string list \<Rightarrow> string list \<Rightarrow> rat" where
  "calculateOverlapScore_number queryTokens targetTokens =
     double (calculateOverlapScore queryTokens targetTokens)"

text \<open>
  The body of the loop over the tools of one server. The literals \<^verbatim>\<open>0.4\<close> and
  \<^verbatim>\<open>0.6\<close> are the doubles nearest to them; each product, the sum, the product with
  \<open>100\<close> and the quotient by \<open>100\<close> round.
\<close>

definition tool_candidate ::
  "string list \<Rightarrow> string \<Rightarrow> ServerConfig \<Rightarrow> string list \<Rightarrow> rat \<Rightarrow> ToolInfo \<Rightarrow> RankedTool list" where
  "tool_candidate queryTokens sid cfg serverTokens serverScore tool =
     (let toolTokens = new_Set (tokenize (toolText tool));
          toolScore = calculateOverlapScore_number queryTokens toolTokens;
          combinedScore =
            double (double (serverScore * double 0.4) + double (toolScore * double 0.6))
      in if combinedScore > 0
         then [\<lparr>ranked_serverId = sid, serverName = server_name cfg,
                 toolName = tool_name tool, toolDescription = tool_description tool,
                 score = double (of_int (Math_round (double (combinedScore * 100))) / 100),
                 reason = buildReason queryTokens serverTokens toolTokens\<rparr>]
         else [])"

text \<open>The body of the loop over the entries of \<^verbatim>\<open>serverTools\<close>.\<close>

definition server_candidates ::
  "string list \<Rightarrow> (string \<Rightarrow> ServerConfig option) \<Rightarrow> string \<times> ToolInfo list \<Rightarrow> RankedTool list" where
  "server_candidates queryTokens serverConfigs entry =
     (case entry of
        (sid, ts) \<Rightarrow>
          (case serverConfigs sid of
             None \<Rightarrow> []
           | Some cfg \<Rightarrow>
               let serverTokens = new_Set (tokenize (serverText cfg));
                   serverScore = calculateOverlapScore_number queryTokens serverTokens
               in concat (map (tool_candidate queryTokens sid cfg serverTokens serverScore) ts)))"

text \<open>
  The comparator given to \<^verbatim>\<open>Array.sort\<close>. \<^verbatim>\<open>String.localeCompare\<close> belongs to the
  host's collation and is a parameter. The difference of two doubles has the sign of
  their exact difference, which is what the sort looks at.
\<close>

definition compareRanked :: "(string \<Rightarrow> string \<Rightarrow> int) \<Rightarrow> RankedTool \<Rightarrow> RankedTool \<Rightarrow> rat" where
  "compareRanked localeCompare a b =
     (if score b \<noteq> score a then score b - score a
      else of_int (localeCompare (toolName a) (toolName b)))"

text \<open>
  \<^verbatim>\<open>Array.sort\<close> is stable; with a consistent comparator its result is the one of a
  stable insertion sort.
\<close>

fun insert_sorted :: "('a \<Rightarrow> 'a \<Rightarrow> rat) \<Rightarrow> 'a \<Rightarrow> 'a list \<Rightarrow> 'a list" where
  "insert_sorted cmp x [] = [x]"
| "insert_sorted cmp x (y # ys) =
     (if cmp x y \<le> 0 then x # y # ys else y # insert_sorted cmp x ys)"

definition Array_sort :: "('a \<Rightarrow> 'a \<Rightarrow> rat) \<Rightarrow> 'a list \<Rightarrow> 'a list" where
  "Array_sort cmp xs = foldr (insert_sorted cmp) xs []"

definition rankToolsForQuery ::
  "(string \<Rightarrow> string \<Rightarrow> int) \<Rightarrow> string \<Rightarrow> (string \<times> ToolInfo list) list \<Rightarrow>
     (string \<Rightarrow> ServerConfig option) \<Rightarrow> int \<Rightarrow> RankedTool list" where
  "rankToolsForQuery localeCompare query serverTools serverConfigs maxResults =
     (let queryTokens = tokenize query
      in if length queryTokens = 0 then []
         else let candidates = concat (map (server_candidates queryTokens serverConfigs) serverTools)
              in slice0 (Array_sort (compareRanked localeCompare) candidates) maxResults)"


section \<open>Notions used in the statements\<close>


text \<open>
  The combined score and the score as the code computes them from the two overlap scores:
  \<^verbatim>\<open>serverScore * 0.4 + toolScore * 0.6\<close> and
  \<^verbatim>\<open>Math.round(combinedScore * 100) / 100\<close>, every operation in doubles.
\<close>

definition combinedScore_number :: "rat \<Rightarrow> rat \<Rightarrow> rat" where
  "combinedScore_number up cap =
     double (double (double up * double 0.4) + double (double cap * double 0.6))"

definition score_number :: "rat \<Rightarrow> rat \<Rightarrow> rat" where
  "score_number up cap =
     double (of_int (Math_round (double (combinedScore_number up cap * 100))) / 100)"

definition upstreamOverlapScore :: "string \<Rightarrow> ServerConfig \<Rightarrow> rat" where
  "upstreamOverlapScore query cfg =
     calculateOverlapScore (tokenize query) (new_Set (tokenize (serverText cfg)))"

definition capabilityOverlapScore :: "string \<Rightarrow> ToolInfo \<Rightarrow> rat" where
  "capabilityOverlapScore query tool =
     calculateOverlapScore (tokenize query) (new_Set (tokenize (toolText tool)))"



text \<open>
  Names for the statements about the registry: the snapshot stored for an id, the three
  columns of the table of servers, and the number of \<^verbatim>\<open>listTools\<close> calls (fetches)
  among the calls made on clients.
\<close>

definition snapshot_of :: "ServerRegistry \<Rightarrow> string \<Rightarrow> CachedTools option" where
  "snapshot_of reg sid =
     (case map_of (servers reg) sid of Some server \<Rightarrow> cachedTools server | None \<Rightarrow> None)"

definition client_of :: "ServerRegistry \<Rightarrow> string \<Rightarrow> McpClient option" where
  "client_of reg sid =
     (case map_of (servers reg) sid of Some server \<Rightarrow> client server | None \<Rightarrow> None)"

definition configs_of :: "ServerRegistry \<Rightarrow> (string \<times> ServerConfig) list" where
  "configs_of reg = map (\<lambda>(k, server). (k, config server)) (servers reg)"

definition cache_of :: "ServerRegistry \<Rightarrow> (string \<times> CachedTools option) list" where
  "cache_of reg = map (\<lambda>(k, server). (k, cachedTools server)) (servers reg)"

definition clients_of :: "ServerRegistry \<Rightarrow> (string \<times> McpClient option) list" where
  "clients_of reg = map (\<lambda>(k, server). (k, client server)) (servers reg)"

fun is_fetch :: "call \<Rightarrow> bool" where
  "is_fetch (ListTools sid) = True"
| "is_fetch c = False"

definition fetches :: "call list \<Rightarrow> nat" where
  "fetches cs = length (filter is_fetch cs)"

text \<open>
  A snapshot is stored for the id and its age at the time of the call is below the time
  to live: the test that \<^verbatim>\<open>listTools\<close> makes before it uses the cache.
\<close>

definition fresh :: "Env \<Rightarrow> ServerRegistry \<Rightarrow> string \<Rightarrow> bool" where
  "fresh env reg sid =
     (case snapshot_of reg sid of
        Some cached \<Rightarrow> Date_now env - fetchedAt cached < cacheTtlMs reg
      | None \<Rightarrow> False)"

text \<open>What \<^verbatim>\<open>listAllTools\<close> records for an id: the tools listed, or nothing on failure.\<close>

definition tools_or_empty :: "string + ToolInfo list \<Rightarrow> ToolInfo list" where
  "tools_or_empty r = (case r of Inr ts \<Rightarrow> ts | Inl err \<Rightarrow> [])"

section \<open>Example data\<close>

text \<open>The configuration of \<^verbatim>\<open>test/registry.test.ts\<close>.\<close>

definition testConfig :: DiscoveryConfig where
  "testConfig =
     \<lparr>cfg_servers =
        [\<lparr>server_id = ''server1'', server_name = ''Server One'',
          server_description = Some ''First test server'',
          transport = StdioTransport ''node'' [''./server1.js''],
          enabled = True, tags = [''test'', ''one'']\<rparr>,
         \<lparr>server_id = ''server2'', server_name = ''Server Two'',
          server_description = Some ''Second test server'',
          transport = StdioTransport ''node'' [''./server2.js''],
          enabled = True, tags = [''test'', ''two'']\<rparr>,
         \<lparr>server_id = ''disabled'', server_name = ''Disabled Server'',
          server_description = Some ''This server is disabled'',
          transport = StdioTransport ''node'' [''./disabled.js''],
          enabled = False, tags = []\<rparr>],
      routing_maxResults = 5, routing_cacheTtlMs = 60000\<rparr>"

definition noneEnabled :: DiscoveryConfig where
  "noneEnabled = testConfig\<lparr>cfg_servers := [last (cfg_servers testConfig)]\<rparr>"

text \<open>The data of \<^verbatim>\<open>test/routing.test.ts\<close>, and a collation by character codes.\<close>

definition weatherServerConfig :: ServerConfig where
  "weatherServerConfig =
     \<lparr>server_id = ''weather'', server_name = ''Weather Server'',
      server_description = Some ''Get weather forecasts and alerts'',
      transport = StdioTransport ''node'' [], enabled = True,
      tags = [''weather'', ''forecast'', ''nws'']\<rparr>"

definition calculatorServerConfig :: ServerConfig where
  "calculatorServerConfig =
     \<lparr>server_id = ''calculator'', server_name = ''Calculator Server'',
      server_description = Some ''Perform mathematical calculations'',
      transport = StdioTransport ''node'' [], enabled = True,
      tags = [''math'', ''calculator'']\<rparr>"

definition weatherTools :: "ToolInfo list" where
  "weatherTools =
     [\<lparr>tool_name = ''get-forecast'', tool_title = Some ''Get Forecast'',
       tool_description = Some ''Get weather forecast for a location'', inputSchema = None\<rparr>,
      \<lparr>tool_name = ''get-alerts'', tool_title = Some ''Get Alerts'',
       tool_description = Some ''Get weather alerts for a state'', inputSchema = None\<rparr>]"

definition calculatorTools :: "ToolInfo list" where
  "calculatorTools =
     [\<lparr>tool_name = ''add'', tool_title = Some ''Add Numbers'',
       tool_description = Some ''Add two numbers together'', inputSchema = None\<rparr>,
      \<lparr>tool_name = ''multiply'', tool_title = Some ''Multiply Numbers'',
       tool_description = Some ''Multiply two numbers'', inputSchema = None\<rparr>]"

definition test_serverTools :: "(string \<times> ToolInfo list) list" where
  "test_serverTools = [(''weather'', weatherTools), (''calculator'', calculatorTools)]"

definition test_serverConfigs :: "string \<Rightarrow> ServerConfig option" where
  "test_serverConfigs =
     map_of [(''weather'', weatherServerConfig), (''calculator'', calculatorServerConfig)]"

definition codeCompare :: "string \<Rightarrow> string \<Rightarrow> int" where
  "codeCompare a b = (if a < b then - 1 else if a = b then 0 else 1)"



text \<open>Two upstreams over stdio and one over http, with a time to live of one minute.\<close>

definition routerConfig :: DiscoveryConfig where
  "routerConfig =
     \<lparr>cfg_servers =
        [weatherServerConfig, calculatorServerConfig,
         \<lparr>server_id = ''remote'', server_name = ''Remote Server'', server_description = None,
          transport = HttpTransport ''http://localhost:3000'', enabled = True, tags = []\<rparr>],
      routing_maxResults = 5, routing_cacheTtlMs = 60000\<rparr>"

text \<open>
  The registry of that configuration, and the same after the tools of \<^verbatim>\<open>weather\<close>
  were fetched at time \<open>1000\<close> through a client that is still connected.
\<close>

definition reg_new :: ServerRegistry where
  "reg_new = new_ServerRegistry routerConfig"

definition reg_cached :: ServerRegistry where
  "reg_cached =
     set_cachedTools ''weather'' (Some \<lparr>tools = weatherTools, fetchedAt = 1000\<rparr>)
       (set_client ''weather'' (Some (StdioMcpClient ''weather'' ''node'' [] True True)) reg_new)"



text \<open>
  Worlds: every upstream answers; no upstream process starts; the processes start but
  \<^verbatim>\<open>calculator\<close> fails to list its tools and to run a tool. In each of them
  \<^verbatim>\<open>spawn\<close> throws for an empty command, with the message of Node's
  \<^verbatim>\<open>ERR_INVALID_ARG_VALUE\<close>.
\<close>

definition spawn_empty_file :: string where
  "spawn_empty_file =
     ''The argument '' @ [CHR 0x27] @ ''file'' @ [CHR 0x27] @
     '' cannot be empty. Received '' @ [CHR 0x27, CHR 0x27]"

definition spawn_checks :: "string \<Rightarrow> string list \<Rightarrow> string option" where
  "spawn_checks cmd as = (if cmd = [] then Some spawn_empty_file else None)"

definition env_up :: "int \<Rightarrow> Env" where
  "env_up now =
     \<lparr>Date_now = now,
      node_spawn = spawn_checks,
      sdk_connect = (\<lambda>sid. None),
      sdk_listTools = (\<lambda>sid. if sid = ''weather'' then Inr weatherTools
                              else if sid = ''calculator'' then Inr calculatorTools
                              else Inr []),
      sdk_callTool = (\<lambda>sid toolName targs. Inr ([''ok''], None))\<rparr>"

definition env_down :: "int \<Rightarrow> Env" where
  "env_down now =
     \<lparr>Date_now = now,
      node_spawn = spawn_checks,
      sdk_connect = (\<lambda>sid. Some ''spawn node ENOENT''),
      sdk_listTools = (\<lambda>sid. Inl ''Not connected''),
      sdk_callTool = (\<lambda>sid toolName targs. Inl ''Not connected'')\<rparr>"

definition env_calculator_fails :: "int \<Rightarrow> Env" where
  "env_calculator_fails now =
     \<lparr>Date_now = now,
      node_spawn = spawn_checks,
      sdk_connect = (\<lambda>sid. None),
      sdk_listTools = (\<lambda>sid. if sid = ''calculator'' then Inl ''Request timed out''
                              else if sid = ''weather'' then Inr weatherTools
                              else Inr []),
      sdk_callTool = (\<lambda>sid toolName targs. if sid = ''calculator'' then Inl ''Request timed out''
                                             else Inr ([''ok''], None))\<rparr>"

section \<open>Construction and membership\<close>

lemma fold_register_keys:
  "fst ` set (fold (\<lambda>sc m. if enabled sc
                           then AList.update (server_id sc)
                                  \<lparr>config = sc, client = None, cachedTools = None\<rparr> m
                           else m) scs acc) =
   fst ` set acc \<union> server_id ` {sc \<in> set scs. enabled sc}"
  by (induction scs arbitrary: acc) (auto simp: dom_update)

lemma fold_register_distinct:
  "distinct (map fst acc) \<Longrightarrow>
   distinct (map fst (fold (\<lambda>sc m. if enabled sc
                           then AList.update (server_id sc)
                                  \<lparr>config = sc, client = None, cachedTools = None\<rparr> m
                           else m) scs acc))"
  by (induction scs arbitrary: acc) (auto simp: distinct_update)

lemma new_ServerRegistry_ok: "registry_ok (new_ServerRegistry cfg)"
  by (simp add: registry_ok_def new_ServerRegistry_def fold_register_distinct)

lemma getServerIds_new:
  "set (getServerIds (new_ServerRegistry cfg)) =
   server_id ` {sc \<in> set (cfg_servers cfg). enabled sc}"
  using fold_register_keys [of "cfg_servers cfg" "[]"]
  by (simp add: getServerIds_def new_ServerRegistry_def)

lemma hasServer_iff: "hasServer reg sid \<longleftrightarrow> sid \<in> set (getServerIds reg)"
  by (simp add: hasServer_def getServerIds_def map_of_eq_None_iff)

text \<open>
  C7. For every configuration, \<^verbatim>\<open>getServerIds()\<close> of the registry built from it lists,
  without repetition, exactly the ids of the descriptors with \<^verbatim>\<open>enabled = true\<close>; it
  is the empty list when no descriptor is enabled; and \<^verbatim>\<open>hasServer(id)\<close> holds exactly
  for those ids, so it is false for an id that only disabled descriptors carry and for an
  id that no descriptor carries alike.
\<close>

theorem C7_enabled_ids:
  "set (getServerIds (new_ServerRegistry cfg)) =
     server_id ` {sc \<in> set (cfg_servers cfg). enabled sc}
   \<and> distinct (getServerIds (new_ServerRegistry cfg))
   \<and> ((\<forall>sc \<in> set (cfg_servers cfg). \<not> enabled sc) \<longrightarrow> getServerIds (new_ServerRegistry cfg) = [])
   \<and> (hasServer (new_ServerRegistry cfg) sid \<longleftrightarrow>
        (\<exists>sc \<in> set (cfg_servers cfg). enabled sc \<and> server_id sc = sid))
   \<and> ((\<forall>sc \<in> set (cfg_servers cfg). server_id sc = sid \<longrightarrow> \<not> enabled sc) \<longrightarrow>
        \<not> hasServer (new_ServerRegistry cfg) sid)"
proof -
  let ?reg = "new_ServerRegistry cfg"
  have ids: "set (getServerIds ?reg) = server_id ` {sc \<in> set (cfg_servers cfg). enabled sc}"
    by (rule getServerIds_new)
  have dist: "distinct (getServerIds ?reg)"
    using new_ServerRegistry_ok [of cfg] by (simp add: registry_ok_def getServerIds_def)
  have empty: "(\<forall>sc \<in> set (cfg_servers cfg). \<not> enabled sc) \<longrightarrow> getServerIds ?reg = []"
  proof
    assume "\<forall>sc \<in> set (cfg_servers cfg). \<not> enabled sc"
    then have "set (getServerIds ?reg) = {}" unfolding ids by blast
    then show "getServerIds ?reg = []" by simp
  qed
  have has: "hasServer ?reg sid \<longleftrightarrow>
               (\<exists>sc \<in> set (cfg_servers cfg). enabled sc \<and> server_id sc = sid)"
    unfolding hasServer_iff ids by blast
  from ids dist empty has show ?thesis by blast
qed

theorem C7_enabled_ids_witness:
  "getServerIds (new_ServerRegistry testConfig) = [''server1'', ''server2'']
   \<and> set (getServerIds (new_ServerRegistry testConfig)) =
       server_id ` {sc \<in> set (cfg_servers testConfig). enabled sc}
   \<and> hasServer (new_ServerRegistry testConfig) ''server1''
   \<and> \<not> hasServer (new_ServerRegistry testConfig) ''disabled''
   \<and> \<not> hasServer (new_ServerRegistry testConfig) ''unknown''
   \<and> getServerIds (new_ServerRegistry noneEnabled) = []"
proof -
  have i: "getServerIds (new_ServerRegistry testConfig) = [''server1'', ''server2'']"
    by (simp add: getServerIds_def new_ServerRegistry_def testConfig_def)
  have d: "\<forall>sc \<in> set (cfg_servers testConfig). server_id sc = ''disabled'' \<longrightarrow> \<not> enabled sc"
    by (simp add: testConfig_def)
  have u: "\<forall>sc \<in> set (cfg_servers testConfig). server_id sc = ''unknown'' \<longrightarrow> \<not> enabled sc"
    by (simp add: testConfig_def)
  have n: "\<forall>sc \<in> set (cfg_servers noneEnabled). \<not> enabled sc"
    by (simp add: noneEnabled_def testConfig_def)
  have e: "\<exists>sc \<in> set (cfg_servers testConfig). enabled sc \<and> server_id sc = ''server1''"
    by (simp add: testConfig_def)
  from C7_enabled_ids [of testConfig "''server1''"] e
  have p1: "set (getServerIds (new_ServerRegistry testConfig)) =
       server_id ` {sc \<in> set (cfg_servers testConfig). enabled sc}"
    and p2: "hasServer (new_ServerRegistry testConfig) ''server1''"
    by blast+
  from C7_enabled_ids [of testConfig "''disabled''"] d
  have p3: "\<not> hasServer (new_ServerRegistry testConfig) ''disabled''" by blast
  from C7_enabled_ids [of testConfig "''unknown''"] u
  have p4: "\<not> hasServer (new_ServerRegistry testConfig) ''unknown''" by blast
  from C7_enabled_ids [of noneEnabled "''server1''"] n
  have p5: "getServerIds (new_ServerRegistry noneEnabled) = []" by blast
  from i p1 p2 p3 p4 p5 show ?thesis by blast
qed

section \<open>The overlap score\<close>

lemma partial_award_eq:
  "partial_award q ts = (if \<exists>t \<in> set ts. sublist q t \<or> sublist t q then 1 / 2 else 0)"
  by (induction ts) (auto simp: String_includes_def)

lemma overlap_loop_eq:
  "overlap_loop qs ts m = m + (\<Sum>q\<leftarrow>qs. award_spec q ts)"
  by (induction qs arbitrary: m) (simp_all add: award_spec_def partial_award_eq)

lemma award_spec_bounds: "0 \<le> award_spec q ts \<and> award_spec q ts \<le> 1"
  by (simp add: award_spec_def)

lemma award_spec_Nil: "award_spec q [] = 0"
  by (simp add: award_spec_def)

lemma sum_awards_bounds:
  "0 \<le> (\<Sum>q\<leftarrow>qs. award_spec q ts) \<and> (\<Sum>q\<leftarrow>qs. award_spec q ts) \<le> of_nat (length qs)"
proof (induction qs)
  case Nil
  then show ?case by simp
next
  case (Cons q qs)
  with award_spec_bounds [where q = q and ts = ts] show ?case by simp
qed

lemma sum_awards_Nil: "(\<Sum>q\<leftarrow>qs. award_spec q []) = 0"
  by (induction qs) (simp_all add: award_spec_Nil)

lemma calculateOverlapScore_spec:
  "calculateOverlapScore qs ts = overlap_score_spec qs ts"
proof (cases "qs = [] \<or> ts = []")
  case True
  then show ?thesis
    by (auto simp: calculateOverlapScore_def overlap_score_spec_def sum_awards_Nil)
next
  case False
  then show ?thesis
    by (simp add: calculateOverlapScore_def overlap_score_spec_def overlap_loop_eq)
qed

lemma overlap_score_spec_bounds:
  "0 \<le> overlap_score_spec qs ts \<and> overlap_score_spec qs ts \<le> 1"
proof (cases "qs = []")
  case True
  then show ?thesis by (simp add: overlap_score_spec_def)
next
  case False
  then have pos: "(0::rat) < of_nat (length qs)" by simp
  from sum_awards_bounds [where qs = qs and ts = ts] pos show ?thesis
    by (simp add: overlap_score_spec_def divide_le_eq)
qed



section \<open>Ranking: scores, order and truncation\<close>

lemma set_insert_sorted: "set (insert_sorted cmp x xs) = insert x (set xs)"
  by (induction xs) auto

lemma length_insert_sorted: "length (insert_sorted cmp x xs) = Suc (length xs)"
  by (induction xs) auto

lemma set_Array_sort: "set (Array_sort cmp xs) = set xs"
  by (induction xs) (simp_all add: Array_sort_def set_insert_sorted)

lemma length_Array_sort: "length (Array_sort cmp xs) = length xs"
  by (induction xs) (simp_all add: Array_sort_def length_insert_sorted)








lemma set_slice0: "set (slice0 xs e) \<subseteq> set xs"
  by (auto simp: slice0_def dest: in_set_takeD)



lemma double_zero: "double 0 = 0"
  by (simp add: double_def)

lemma tool_candidate_props:
  assumes "c \<in> set (tool_candidate (tokenize query) sid cfg
                      (new_Set (tokenize (serverText cfg)))
                      (calculateOverlapScore_number (tokenize query)
                         (new_Set (tokenize (serverText cfg)))) tool)"
  shows "ranked_serverId c = sid \<and> toolName c = tool_name tool
         \<and> 0 < combinedScore_number (upstreamOverlapScore query cfg)
                  (capabilityOverlapScore query tool)
         \<and> score c = score_number (upstreamOverlapScore query cfg)
                        (capabilityOverlapScore query tool)
         \<and> reason c = buildReason (tokenize query) (new_Set (tokenize (serverText cfg)))
                         (new_Set (tokenize (toolText tool)))"
  using assms
  by (auto simp: tool_candidate_def Let_def calculateOverlapScore_number_def
        upstreamOverlapScore_def capabilityOverlapScore_def combinedScore_number_def
        score_number_def mult.commute split: if_splits)

lemma server_candidates_props:
  assumes "c \<in> set (server_candidates (tokenize query) serverConfigs (sid, ts))"
  shows "\<exists>cfg tool. serverConfigs sid = Some cfg \<and> tool \<in> set ts
           \<and> c \<in> set (tool_candidate (tokenize query) sid cfg
                      (new_Set (tokenize (serverText cfg)))
                      (calculateOverlapScore_number (tokenize query)
                         (new_Set (tokenize (serverText cfg)))) tool)"
proof (cases "serverConfigs sid")
  case None
  with assms show ?thesis by (simp add: server_candidates_def)
next
  case (Some cfg)
  with assms show ?thesis
    by (auto simp: server_candidates_def Let_def)
qed


lemma rank_subset:
  "set (rankToolsForQuery lc query serverTools serverConfigs maxResults) \<subseteq>
   set (concat (map (server_candidates (tokenize query) serverConfigs) serverTools))"
  using set_slice0 [of "Array_sort (compareRanked lc)
      (concat (map (server_candidates (tokenize query) serverConfigs) serverTools))" maxResults]
  by (simp add: rankToolsForQuery_def Let_def set_Array_sort)

lemma rank_candidate:
  assumes "c \<in> set (rankToolsForQuery lc query serverTools serverConfigs maxResults)"
  shows "\<exists>sid ts cfg tool. (sid, ts) \<in> set serverTools \<and> serverConfigs sid = Some cfg
           \<and> tool \<in> set ts
           \<and> c \<in> set (tool_candidate (tokenize query) sid cfg
                      (new_Set (tokenize (serverText cfg)))
                      (calculateOverlapScore_number (tokenize query)
                         (new_Set (tokenize (serverText cfg)))) tool)"
proof -
  from assms rank_subset
  have "c \<in> set (concat (map (server_candidates (tokenize query) serverConfigs) serverTools))"
    by blast
  then obtain e where e: "e \<in> set serverTools"
    and c: "c \<in> set (server_candidates (tokenize query) serverConfigs e)"
    by auto
  obtain sid ts where st: "e = (sid, ts)" by (cases e)
  from server_candidates_props [of c query serverConfigs sid ts] c e st show ?thesis by blast
qed








section \<open>The reason string\<close>

lemma first_match_None_iff:
  "first_match qt ts = None \<longleftrightarrow> \<not> (\<exists>t \<in> set ts. t = qt \<or> sublist qt t \<or> sublist t qt)"
  by (induction ts) (auto simp: String_includes_def)

lemma award_pos_first_match:
  "0 < award_spec q ts \<Longrightarrow> first_match q ts \<noteq> None"
  by (auto simp: first_match_None_iff award_spec_def split: if_splits)

lemma sum_awards_pos:
  "0 < (\<Sum>q\<leftarrow>qs. award_spec q ts) \<Longrightarrow> \<exists>q \<in> set qs. 0 < award_spec q ts"
proof (induction qs)
  case Nil
  then show ?case by simp
next
  case (Cons q qs)
  show ?case
  proof (cases "0 < award_spec q ts")
    case True
    then show ?thesis by simp
  next
    case False
    with award_spec_bounds [where q = q and ts = ts] have "award_spec q ts = 0" by simp
    with Cons show ?thesis by simp
  qed
qed

lemma score_pos_first_match:
  assumes "0 < calculateOverlapScore qs ts"
  shows "\<exists>q \<in> set qs. first_match q ts \<noteq> None"
proof -
  from assms have "0 < (\<Sum>q\<leftarrow>qs. award_spec q ts) / of_nat (length qs)"
    by (simp add: calculateOverlapScore_spec overlap_score_spec_def)
  then have "0 < (\<Sum>q\<leftarrow>qs. award_spec q ts)"
    by (simp add: zero_less_divide_iff)
  from sum_awards_pos [OF this] award_pos_first_match show ?thesis by blast
qed

lemma buildReason_loop_fst:
  "fst (buildReason_loop qs ss ts (sm, tm)) = sm @ List.map_filter (\<lambda>q. first_match q ss) qs"
  by (induction qs arbitrary: sm tm) (auto simp: List.map_filter_simps split: option.splits)

lemma buildReason_loop_snd:
  "snd (buildReason_loop qs ss ts (sm, tm)) = tm @ List.map_filter (\<lambda>q. first_match q ts) qs"
  by (induction qs arbitrary: sm tm) (auto simp: List.map_filter_simps split: option.splits)

lemma map_filter_nonempty:
  "\<exists>q \<in> set qs. f q \<noteq> None \<Longrightarrow> List.map_filter f qs \<noteq> []"
  by (induction qs) (auto simp: List.map_filter_simps split: option.splits)

lemma join_Cons_prefix: "prefix x (join sep (x # xs))"
  by (cases xs) simp_all

lemma buildReason_clause:
  assumes "(\<exists>q \<in> set qs. first_match q ss \<noteq> None) \<or> (\<exists>q \<in> set qs. first_match q ts \<noteq> None)"
  shows "buildReason qs ss ts \<noteq> ''low relevance match''
         \<and> (prefix ''server matches: '' (buildReason qs ss ts)
              \<or> prefix ''tool matches: '' (buildReason qs ss ts))"
proof -
  obtain sm tm where l: "buildReason_loop qs ss ts ([], []) = (sm, tm)"
    by (cases "buildReason_loop qs ss ts ([], [])")
  from buildReason_loop_fst [of qs ss ts "[]" "[]"] l
  have sm: "sm = List.map_filter (\<lambda>q. first_match q ss) qs" by simp
  from buildReason_loop_snd [of qs ss ts "[]" "[]"] l
  have tm: "tm = List.map_filter (\<lambda>q. first_match q ts) qs" by simp
  from assms sm tm map_filter_nonempty [of qs "\<lambda>q. first_match q ss"]
    map_filter_nonempty [of qs "\<lambda>q. first_match q ts"]
  have ne: "sm \<noteq> [] \<or> tm \<noteq> []" by auto
  show ?thesis
  proof (cases "sm = []")
    case True
    with ne have t: "tm \<noteq> []" by simp
    from True t l have r: "buildReason qs ss ts =
        ''tool matches: '' @ join '', '' (slice0 (new_Set tm) 3)"
      by (simp add: buildReason_def Let_def)
    show ?thesis unfolding r by simp
  next
    case False
    let ?s = "''server matches: '' @ join '', '' (slice0 (new_Set sm) 3)"
    from False l obtain rest where r: "buildReason qs ss ts = join ''; '' (?s # rest)"
      by (auto simp: buildReason_def Let_def)
    have p: "prefix ''server matches: '' (buildReason qs ss ts)"
      unfolding r using join_Cons_prefix [of ?s "''; ''" rest]
      by (meson prefix_order.trans prefixI)
    then have "buildReason qs ss ts \<noteq> ''low relevance match''"
      by (auto simp: prefix_def)
    with p show ?thesis by simp
  qed
qed

lemma combinedScore_number_pos:
  assumes "0 < combinedScore_number up cap" and "0 \<le> up" and "0 \<le> cap"
  shows "0 < up \<or> 0 < cap"
proof (rule ccontr)
  assume "\<not> (0 < up \<or> 0 < cap)"
  with assms(2,3) have "up = 0" "cap = 0" by simp_all
  then have "combinedScore_number up cap = 0"
    by (simp add: combinedScore_number_def double_zero)
  with assms(1) show False by simp
qed

text \<open>
  C10. No candidate that \<^verbatim>\<open>rankToolsForQuery\<close> returns has the reason
  \<^verbatim>\<open>"low relevance match"\<close>: a candidate is kept only with a positive combined score,
  so some query token matches a server token or a tool token under the rule that
  \<^verbatim>\<open>buildReason\<close> uses too, and the reason starts with the
  \<^verbatim>\<open>"server matches: "\<close> clause or, when that one is absent, with the
  \<^verbatim>\<open>"tool matches: "\<close> clause.
\<close>

theorem C10_reason_never_low_relevance:
  "\<forall>c \<in> set (rankToolsForQuery lc query serverTools serverConfigs maxResults).
     reason c \<noteq> ''low relevance match''
     \<and> (prefix ''server matches: '' (reason c) \<or> prefix ''tool matches: '' (reason c))"
proof
  fix c
  assume "c \<in> set (rankToolsForQuery lc query serverTools serverConfigs maxResults)"
  from rank_candidate [OF this] obtain sid ts cfg tool where
    c: "c \<in> set (tool_candidate (tokenize query) sid cfg
                      (new_Set (tokenize (serverText cfg)))
                      (calculateOverlapScore_number (tokenize query)
                         (new_Set (tokenize (serverText cfg)))) tool)"
    by blast
  let ?qs = "tokenize query"
  let ?ss = "new_Set (tokenize (serverText cfg))"
  let ?ts = "new_Set (tokenize (toolText tool))"
  from tool_candidate_props [OF c]
  have pos: "0 < combinedScore_number (upstreamOverlapScore query cfg)
                   (capabilityOverlapScore query tool)"
    and r: "reason c = buildReason ?qs ?ss ?ts"
    by simp_all
  have "0 \<le> upstreamOverlapScore query cfg" "0 \<le> capabilityOverlapScore query tool"
    using overlap_score_spec_bounds
    by (simp_all add: upstreamOverlapScore_def capabilityOverlapScore_def calculateOverlapScore_spec)
  from combinedScore_number_pos [OF pos this]
  have "0 < calculateOverlapScore ?qs ?ss \<or> 0 < calculateOverlapScore ?qs ?ts"
    by (simp add: upstreamOverlapScore_def capabilityOverlapScore_def)
  with score_pos_first_match
  have "(\<exists>q \<in> set ?qs. first_match q ?ss \<noteq> None) \<or> (\<exists>q \<in> set ?qs. first_match q ?ts \<noteq> None)"
    by blast
  from buildReason_clause [OF this] r
  show "reason c \<noteq> ''low relevance match''
     \<and> (prefix ''server matches: '' (reason c) \<or> prefix ''tool matches: '' (reason c))"
    by simp
qed

theorem C10_reason_never_low_relevance_witness:
  "map reason (rankToolsForQuery codeCompare ''add two numbers'' test_serverTools
                 test_serverConfigs 3)
     = [''tool matches: add, two, numbers'', ''tool matches: two, numbers'', ''tool matches: a'']
   \<and> reason (hd (rankToolsForQuery codeCompare ''add two numbers'' test_serverTools
                 test_serverConfigs 3)) \<noteq> ''low relevance match''
   \<and> prefix ''tool matches: '' (reason (hd (rankToolsForQuery codeCompare ''add two numbers''
                 test_serverTools test_serverConfigs 3)))"
proof -
  let ?r = "rankToolsForQuery codeCompare ''add two numbers'' test_serverTools test_serverConfigs 3"
  have m: "map reason ?r =
      [''tool matches: add, two, numbers'', ''tool matches: two, numbers'', ''tool matches: a'']"
    by code_simp
  then have "?r \<noteq> []" by auto
  then have h: "hd ?r \<in> set ?r" by simp
  from m have hr: "reason (hd ?r) = ''tool matches: add, two, numbers''"
    by (cases ?r) auto
  from C10_reason_never_low_relevance [of codeCompare "''add two numbers''" test_serverTools
      test_serverConfigs 3] h
  have "reason (hd ?r) \<noteq> ''low relevance match''
     \<and> (prefix ''server matches: '' (reason (hd ?r)) \<or> prefix ''tool matches: '' (reason (hd ?r)))"
    by blast
  with hr m show ?thesis by simp
qed

section \<open>Registry operations: frame lemmas\<close>

lemma map_entry_column:
  assumes "\<And>s. g (f s) = g s"
  shows "map (\<lambda>(k, s). (k, g s)) (AList.map_entry sid f xs) = map (\<lambda>(k, s). (k, g s)) xs"
  using assms by (induction xs) auto

lemma map_entry_keys: "map fst (AList.map_entry sid f xs) = map fst xs"
  by (induction xs) auto

lemma set_client_frame:
  "cacheTtlMs (set_client sid c reg) = cacheTtlMs reg"
  "cache_of (set_client sid c reg) = cache_of reg"
  "configs_of (set_client sid c reg) = configs_of reg"
  "getServerIds (set_client sid c reg) = getServerIds reg"
  by (simp_all add: set_client_def cache_of_def configs_of_def getServerIds_def
        map_entry_column [where g = cachedTools] map_entry_column [where g = config] map_entry_keys)

lemma set_cachedTools_frame:
  "cacheTtlMs (set_cachedTools sid c reg) = cacheTtlMs reg"
  "clients_of (set_cachedTools sid c reg) = clients_of reg"
  "configs_of (set_cachedTools sid c reg) = configs_of reg"
  "getServerIds (set_cachedTools sid c reg) = getServerIds reg"
  by (simp_all add: set_cachedTools_def clients_of_def configs_of_def getServerIds_def
        map_entry_column [where g = client] map_entry_column [where g = config] map_entry_keys)

lemma map_of_set_client:
  "map_of (servers (set_client sid c reg)) k =
     (if k = sid then map_option (\<lambda>s. s\<lparr>client := c\<rparr>) (map_of (servers reg) sid)
      else map_of (servers reg) k)"
  by (simp add: set_client_def map_of_map_entry split: option.splits)

lemma map_of_set_cachedTools:
  "map_of (servers (set_cachedTools sid c reg)) k =
     (if k = sid then map_option (\<lambda>s. s\<lparr>cachedTools := c\<rparr>) (map_of (servers reg) sid)
      else map_of (servers reg) k)"
  by (simp add: set_cachedTools_def map_of_map_entry split: option.splits)

lemma snapshot_of_set_client: "snapshot_of (set_client sid c reg) k = snapshot_of reg k"
  by (simp add: snapshot_of_def map_of_set_client split: option.splits)

lemma snapshot_of_set_cachedTools:
  "snapshot_of (set_cachedTools sid c reg) k =
     (if k = sid \<and> map_of (servers reg) sid \<noteq> None then c else snapshot_of reg k)"
  by (auto simp: snapshot_of_def map_of_set_cachedTools split: option.splits)

section \<open>What \<^verbatim>\<open>getClient\<close> does\<close>

lemma new_client_connect:
  "new_client sid t = Some c \<Longrightarrow> McpClient_connect env c = (None, c') \<Longrightarrow>
   connected c' \<and> (\<exists>cmd as. c' = StdioMcpClient sid cmd as True True)"
  by (cases t) (auto split: option.splits)

lemma getClient_cases:
  "getClient env reg sid = (r, reg', cs) \<Longrightarrow>
     (\<exists>err. r = Inl err \<and> reg' = reg \<and> (cs = [] \<or> cs = [Connect sid]))
   \<or> (\<exists>c. r = Inr c \<and> connected c \<and> client_of reg sid = Some c \<and> reg' = reg \<and> cs = [])
   \<or> (\<exists>c. r = Inr c \<and> connected c \<and> reg' = set_client sid (Some c) reg \<and> cs = [Connect sid])"
  unfolding getClient_def client_of_def
  by (auto split: option.splits if_splits prod.splits dest: new_client_connect)

lemma getClient_unknown:
  "map_of (servers reg) sid = None \<Longrightarrow> getClient env reg sid = (Inl (unknown_server sid), reg, [])"
  by (simp add: getClient_def)

lemma getClient_registered:
  "getClient env reg sid = (Inr c, reg', cs) \<Longrightarrow> map_of (servers reg) sid \<noteq> None"
  by (auto simp: getClient_def split: option.splits)

section \<open>What \<^verbatim>\<open>listTools\<close> does\<close>

lemma listTools_hit:
  "fresh env reg sid \<Longrightarrow>
   listTools env reg sid = (Inr (tools (the (snapshot_of reg sid))), reg, [])"
  by (auto simp: fresh_def snapshot_of_def listTools_def Let_def split: option.splits)

lemma listTools_miss:
  "\<not> fresh env reg sid \<Longrightarrow> map_of (servers reg) sid \<noteq> None \<Longrightarrow>
   listTools env reg sid =
     (case getClient env reg sid of
        (Inl err, reg1, cs) \<Rightarrow> (Inl err, reg1, cs)
      | (Inr c, reg1, cs) \<Rightarrow>
          (case McpClient_listTools env c of
             Inl err \<Rightarrow> (Inl err, reg1, cs @ [ListTools sid])
           | Inr ts \<Rightarrow>
               (Inr ts,
                set_cachedTools sid (Some \<lparr>tools = ts, fetchedAt = Date_now env\<rparr>) reg1,
                cs @ [ListTools sid])))"
  by (auto simp: fresh_def snapshot_of_def listTools_def Let_def split: option.splits)

lemma listTools_unknown:
  "map_of (servers reg) sid = None \<Longrightarrow>
   listTools env reg sid = (Inl (unknown_server sid), reg, [])"
  by (simp add: listTools_def)

lemma listTools_cases:
  assumes "listTools env reg sid = (r, reg', cs)"
  shows "(fresh env reg sid \<and> r = Inr (tools (the (snapshot_of reg sid))) \<and> reg' = reg \<and> cs = [])
   \<or> (\<not> fresh env reg sid \<and> (\<exists>err. r = Inl err) \<and> reg' = reg \<and> (cs = [] \<or> cs = [Connect sid]))
   \<or> (\<not> fresh env reg sid \<and>
        (\<exists>c reg1 pre err. getClient env reg sid = (Inr c, reg1, pre)
           \<and> McpClient_listTools env c = Inl err \<and> r = Inl err \<and> reg' = reg1
           \<and> cs = pre @ [ListTools sid]))
   \<or> (\<not> fresh env reg sid \<and>
        (\<exists>c reg1 pre ts. getClient env reg sid = (Inr c, reg1, pre)
           \<and> McpClient_listTools env c = Inr ts \<and> r = Inr ts
           \<and> reg' = set_cachedTools sid (Some \<lparr>tools = ts, fetchedAt = Date_now env\<rparr>) reg1
           \<and> cs = pre @ [ListTools sid]))"
proof (cases "fresh env reg sid")
  case True
  with assms listTools_hit [OF True] show ?thesis by auto
next
  case False
  show ?thesis
  proof (cases "map_of (servers reg) sid")
    case None
    with assms False listTools_unknown [OF None, of env] show ?thesis by auto
  next
    case (Some server)
    obtain g reg1 pre where g: "getClient env reg sid = (g, reg1, pre)"
      by (cases "getClient env reg sid") auto
    from Some have "map_of (servers reg) sid \<noteq> None" by simp
    note m = listTools_miss [OF False this]
    show ?thesis
    proof (cases g)
      case (Inl err)
      with getClient_cases [OF g] have "reg1 = reg" "pre = [] \<or> pre = [Connect sid]" by auto
      with assms m g Inl False show ?thesis by auto
    next
      case (Inr c)
      note gc = g [unfolded Inr]
      show ?thesis
      proof (cases "McpClient_listTools env c")
        case (Inl err)
        with assms m gc have "r = Inl err" "reg' = reg1" "cs = pre @ [ListTools sid]"
          by simp_all
        with gc Inl False show ?thesis by blast
      next
        case (Inr ts)
        with assms m gc have "r = Inr ts" "cs = pre @ [ListTools sid]"
          "reg' = set_cachedTools sid (Some \<lparr>tools = ts, fetchedAt = Date_now env\<rparr>) reg1"
          by simp_all
        with gc Inr False show ?thesis by blast
      qed
    qed
  qed
qed

lemma getClient_pre:
  "getClient env reg sid = (r, reg1, pre) \<Longrightarrow> pre = [] \<or> pre = [Connect sid]"
  using getClient_cases by blast

lemma fetches_simps:
  "fetches [] = 0" "fetches [Connect sid] = 0"
  "fetches (xs @ ys) = fetches xs + fetches ys" "fetches [ListTools sid] = 1"
  by (simp_all add: fetches_def)

lemma listTools_fetches_le:
  assumes "listTools env reg sid = (r, reg', cs)"
  shows "fetches cs \<le> 1"
proof -
  have pre: "\<And>c reg1 pre. getClient env reg sid = (c, reg1, pre) \<Longrightarrow> fetches pre = 0"
    using getClient_pre [of env reg sid] by (auto simp: fetches_simps)
  from listTools_cases [OF assms] show ?thesis
    by (auto simp: fetches_simps dest: pre)
qed


lemma getClient_ok_frame:
  assumes "getClient env reg sid = (Inr c, reg1, pre)"
  shows "map_of (servers reg1) sid \<noteq> None" "cacheTtlMs reg1 = cacheTtlMs reg"
    "cache_of reg1 = cache_of reg" "configs_of reg1 = configs_of reg"
    "snapshot_of reg1 k = snapshot_of reg k" "getServerIds reg1 = getServerIds reg"
  using getClient_cases [OF assms] getClient_registered [OF assms]
  by (auto simp: set_client_frame map_of_set_client snapshot_of_set_client)

lemma listTools_ok_snapshot:
  assumes "listTools env reg sid = (Inr ts, reg', cs)"
  shows "\<exists>cached. snapshot_of reg' sid = Some cached \<and> tools cached = ts
           \<and> (fresh env reg sid \<and> reg' = reg \<and> cs = []
               \<or> \<not> fresh env reg sid \<and> fetchedAt cached = Date_now env \<and> fetches cs = 1)"
    and "cacheTtlMs reg' = cacheTtlMs reg"
proof -
  from listTools_cases [OF assms]
  consider (hit) "fresh env reg sid" "ts = tools (the (snapshot_of reg sid))" "reg' = reg" "cs = []"
    | (miss) c reg1 pre where "\<not> fresh env reg sid" "getClient env reg sid = (Inr c, reg1, pre)"
        "reg' = set_cachedTools sid (Some \<lparr>tools = ts, fetchedAt = Date_now env\<rparr>) reg1"
        "cs = pre @ [ListTools sid]"
    by auto
  then have "(\<exists>cached. snapshot_of reg' sid = Some cached \<and> tools cached = ts
           \<and> (fresh env reg sid \<and> reg' = reg \<and> cs = []
               \<or> \<not> fresh env reg sid \<and> fetchedAt cached = Date_now env \<and> fetches cs = 1))
        \<and> cacheTtlMs reg' = cacheTtlMs reg"
  proof cases
    case hit
    then show ?thesis by (auto simp: fresh_def split: option.splits)
  next
    case miss
    from getClient_pre [OF miss(2)] have "fetches pre = 0" by (auto simp: fetches_simps)
    with miss getClient_ok_frame(1,2) [OF miss(2)] show ?thesis
      by (simp add: snapshot_of_set_cachedTools set_cachedTools_frame fetches_simps)
  qed
  then show "\<exists>cached. snapshot_of reg' sid = Some cached \<and> tools cached = ts
           \<and> (fresh env reg sid \<and> reg' = reg \<and> cs = []
               \<or> \<not> fresh env reg sid \<and> fetchedAt cached = Date_now env \<and> fetches cs = 1)"
    and "cacheTtlMs reg' = cacheTtlMs reg" by blast+
qed

lemma listTools_twice:
  assumes 1: "listTools env reg sid = (Inr ts, reg1, cs1)"
    and 2: "listTools env2 reg1 sid = (r2, reg2, cs2)"
    and w: "Date_now env2 - Date_now env < cacheTtlMs reg"
  shows "fetches (cs1 @ cs2) \<le> 1"
proof -
  from listTools_ok_snapshot [OF 1] obtain cached where
    s: "snapshot_of reg1 sid = Some cached" "tools cached = ts"
    and d: "fresh env reg sid \<and> reg1 = reg \<and> cs1 = []
            \<or> \<not> fresh env reg sid \<and> fetchedAt cached = Date_now env \<and> fetches cs1 = 1"
    and t: "cacheTtlMs reg1 = cacheTtlMs reg"
    by blast
  from d show ?thesis
  proof
    assume "fresh env reg sid \<and> reg1 = reg \<and> cs1 = []"
    with listTools_fetches_le [OF 2] show ?thesis by (simp add: fetches_simps)
  next
    assume m: "\<not> fresh env reg sid \<and> fetchedAt cached = Date_now env \<and> fetches cs1 = 1"
    with s t w have "fresh env2 reg1 sid" by (simp add: fresh_def)
    from listTools_hit [OF this] 2 have "cs2 = []" by simp
    with m show ?thesis by (simp add: fetches_simps)
  qed
qed

lemma ToolInfo_copy: "map (\<lambda>tool. \<lparr>tool_name = tool_name tool, tool_title = tool_title tool,
     tool_description = tool_description tool, inputSchema = inputSchema tool\<rparr>) ts = ts"
  by (induction ts) auto

lemma listTools_first_access:
  assumes "map_of (servers reg) sid = Some server" and "\<not> fresh env reg sid"
    and "client server = None" and "transport (config server) = StdioTransport cmd as"
    and "node_spawn env cmd as = None"
    and "sdk_connect env sid = None" and "sdk_listTools env sid = Inr ts"
  shows "listTools env reg sid =
     (Inr ts,
      set_cachedTools sid (Some \<lparr>tools = ts, fetchedAt = Date_now env\<rparr>)
        (set_client sid (Some (StdioMcpClient sid cmd as True True)) reg),
      [Connect sid, ListTools sid])"
proof -
  from assms have g: "getClient env reg sid =
      (Inr (StdioMcpClient sid cmd as True True),
       set_client sid (Some (StdioMcpClient sid cmd as True True)) reg, [Connect sid])"
    by (simp add: getClient_def)
  from assms(1) have "map_of (servers reg) sid \<noteq> None" by simp
  from listTools_miss [OF assms(2) this] g assms(7) show ?thesis
    by (simp add: ToolInfo_copy)
qed

text \<open>The two parts of \<^verbatim>\<open>listTools\<close>, run without another call in between, are the call.\<close>

lemma listTools_parts:
  "listTools env reg sid =
     (case listTools_check env reg sid of
        Inl r \<Rightarrow> (r, reg, [])
      | Inr now \<Rightarrow> listTools_fetch env now reg sid)"
  by (simp add: listTools_def listTools_check_def listTools_fetch_def Let_def
        split: option.splits)

text \<open>
  C1. For every registry, id and world: (1) if a snapshot is stored for the id and its age
  is below the time to live, \<^verbatim>\<open>listTools\<close> returns its tools, changes nothing and
  makes no call on any client; (2) if a call returned tools and the snapshot it leaves is
  still fresh at a second call, the second call returns the same tools with no call on a
  client; (3) if a call returned tools and a second call follows within the time to live,
  the two together fetch at most once; (4) a call that finds no fresh snapshot and returns
  tools has fetched exactly once, as its last call, and has stored those tools stamped with
  the time read at the start of the call; (5) on the first access to a stdio upstream
  whose process starts, connects and lists, the call connects, fetches, stores the
  snapshot and returns the tools. Parts (2) and (3) are about calls made one after the
  other, the second on the registry the first has left after returning tools.
\<close>

theorem C1_listTools_cache:
  "(fresh env reg sid \<longrightarrow>
      listTools env reg sid = (Inr (tools (the (snapshot_of reg sid))), reg, []))
   \<and> (\<forall>ts reg1 cs1. listTools env reg sid = (Inr ts, reg1, cs1) \<and> fresh env2 reg1 sid \<longrightarrow>
        listTools env2 reg1 sid = (Inr ts, reg1, []) \<and> fetches cs1 \<le> 1)
   \<and> (\<forall>ts reg1 cs1 r2 reg2 cs2.
        listTools env reg sid = (Inr ts, reg1, cs1) \<and> listTools env2 reg1 sid = (r2, reg2, cs2)
        \<and> Date_now env2 - Date_now env < cacheTtlMs reg \<longrightarrow>
        fetches (cs1 @ cs2) \<le> 1)
   \<and> (\<forall>ts reg1 cs1. \<not> fresh env reg sid \<and> listTools env reg sid = (Inr ts, reg1, cs1) \<longrightarrow>
        snapshot_of reg1 sid = Some \<lparr>tools = ts, fetchedAt = Date_now env\<rparr>
        \<and> fetches cs1 = 1 \<and> last cs1 = ListTools sid)
   \<and> (\<forall>server cmd as ts.
        map_of (servers reg) sid = Some server \<and> \<not> fresh env reg sid \<and> client server = None
        \<and> transport (config server) = StdioTransport cmd as \<and> node_spawn env cmd as = None
        \<and> sdk_connect env sid = None \<and> sdk_listTools env sid = Inr ts \<longrightarrow>
        listTools env reg sid =
          (Inr ts,
           set_cachedTools sid (Some \<lparr>tools = ts, fetchedAt = Date_now env\<rparr>)
             (set_client sid (Some (StdioMcpClient sid cmd as True True)) reg),
           [Connect sid, ListTools sid]))"
proof (intro conjI allI impI)
  assume "fresh env reg sid"
  then show "listTools env reg sid = (Inr (tools (the (snapshot_of reg sid))), reg, [])"
    by (rule listTools_hit)
next
  fix ts reg1 cs1
  assume a: "listTools env reg sid = (Inr ts, reg1, cs1) \<and> fresh env2 reg1 sid"
  with listTools_ok_snapshot(1) [of env reg sid ts reg1 cs1]
  have "tools (the (snapshot_of reg1 sid)) = ts" by auto
  with a listTools_hit [of env2 reg1 sid]
  show "listTools env2 reg1 sid = (Inr ts, reg1, [])" by simp
  from a listTools_fetches_le show "fetches cs1 \<le> 1" by blast
next
  fix ts reg1 cs1 r2 reg2 cs2
  assume "listTools env reg sid = (Inr ts, reg1, cs1) \<and> listTools env2 reg1 sid = (r2, reg2, cs2)
        \<and> Date_now env2 - Date_now env < cacheTtlMs reg"
  then show "fetches (cs1 @ cs2) \<le> 1" using listTools_twice by blast
next
  fix ts reg1 cs1
  assume a: "\<not> fresh env reg sid \<and> listTools env reg sid = (Inr ts, reg1, cs1)"
  with listTools_ok_snapshot(1) [of env reg sid ts reg1 cs1]
  show "snapshot_of reg1 sid = Some \<lparr>tools = ts, fetchedAt = Date_now env\<rparr>"
    and "fetches cs1 = 1" by auto
  from a listTools_cases [of env reg sid "Inr ts" reg1 cs1]
  show "last cs1 = ListTools sid" by auto
next
  fix server cmd as ts
  assume "map_of (servers reg) sid = Some server \<and> \<not> fresh env reg sid \<and> client server = None
        \<and> transport (config server) = StdioTransport cmd as \<and> node_spawn env cmd as = None
        \<and> sdk_connect env sid = None \<and> sdk_listTools env sid = Inr ts"
  then show "listTools env reg sid =
          (Inr ts,
           set_cachedTools sid (Some \<lparr>tools = ts, fetchedAt = Date_now env\<rparr>)
             (set_client sid (Some (StdioMcpClient sid cmd as True True)) reg),
           [Connect sid, ListTools sid])"
    using listTools_first_access by blast
qed

theorem C1_listTools_cache_witness:
  "fresh (env_down 5000) reg_cached ''weather''
   \<and> listTools (env_down 5000) reg_cached ''weather'' = (Inr weatherTools, reg_cached, [])
   \<and> fst (listTools (env_up 70000) reg_cached ''weather'') = Inr weatherTools
   \<and> snapshot_of (fst (snd (listTools (env_up 70000) reg_cached ''weather''))) ''weather''
       = Some \<lparr>tools = weatherTools, fetchedAt = 70000\<rparr>
   \<and> snd (snd (listTools (env_up 70000) reg_cached ''weather'')) = [ListTools ''weather'']
   \<and> snd (snd (listTools (env_up 5) reg_new ''weather''))
       = [Connect ''weather'', ListTools ''weather'']
   \<and> listTools (env_down 50000) (fst (snd (listTools (env_up 5) reg_new ''weather''))) ''weather''
       = (Inr weatherTools, fst (snd (listTools (env_up 5) reg_new ''weather'')), [])
   \<and> fetches (snd (snd (listTools (env_up 5) reg_new ''weather'')) @
               snd (snd (listTools (env_down 50000)
                           (fst (snd (listTools (env_up 5) reg_new ''weather''))) ''weather'')))
       \<le> 1"
proof -
  have f1: "fresh (env_down 5000) reg_cached ''weather''" by code_simp
  have s1: "tools (the (snapshot_of reg_cached ''weather'')) = weatherTools" by code_simp
  from C1_listTools_cache [of "env_down 5000" reg_cached "''weather''" "env_down 5000"] f1 s1
  have p1: "listTools (env_down 5000) reg_cached ''weather'' = (Inr weatherTools, reg_cached, [])"
    by simp
  let ?l2 = "listTools (env_up 70000) reg_cached ''weather''"
  have a2: "fst ?l2 = Inr weatherTools" by code_simp
  have c2: "snd (snd ?l2) = [ListTools ''weather'']" by code_simp
  have l2: "?l2 = (Inr weatherTools, fst (snd ?l2), [ListTools ''weather''])"
    using a2 c2 by (metis prod.collapse)
  have n2: "\<not> fresh (env_up 70000) reg_cached ''weather''" by code_simp
  have d2: "Date_now (env_up 70000) = 70000" by (simp add: env_up_def)
  from C1_listTools_cache [of "env_up 70000" reg_cached "''weather''" "env_up 70000"] n2 l2 d2
  have p2: "snapshot_of (fst (snd ?l2)) ''weather'' =
      Some \<lparr>tools = weatherTools, fetchedAt = 70000\<rparr>"
    by (elim conjE allE [where x = weatherTools]) auto
  have m: "map_of (servers reg_new) ''weather'' =
      Some \<lparr>config = weatherServerConfig, client = None, cachedTools = None\<rparr>"
    by code_simp
  have n3: "\<not> fresh (env_up 5) reg_new ''weather''" by code_simp
  have e3: "sdk_connect (env_up 5) ''weather'' = None"
    "node_spawn (env_up 5) ''node'' [] = None"
    "sdk_listTools (env_up 5) ''weather'' = Inr weatherTools"
    "transport weatherServerConfig = StdioTransport ''node'' []"
    "Date_now (env_up 5) = 5" "Date_now (env_down 50000) = 50000" "cacheTtlMs reg_new = 60000"
    by (simp_all add: env_up_def env_down_def weatherServerConfig_def reg_new_def
          new_ServerRegistry_def routerConfig_def spawn_checks_def)
  note t3 = C1_listTools_cache [of "env_up 5" reg_new "''weather''" "env_down 50000"]
  let ?reg3 = "set_cachedTools ''weather'' (Some \<lparr>tools = weatherTools, fetchedAt = 5\<rparr>)
             (set_client ''weather'' (Some (StdioMcpClient ''weather'' ''node'' [] True True)) reg_new)"
  from t3 m n3 e3
  have p3: "listTools (env_up 5) reg_new ''weather'' =
     (Inr weatherTools, ?reg3, [Connect ''weather'', ListTools ''weather''])"
    by simp
  have f4: "fresh (env_down 50000) ?reg3 ''weather''" by code_simp
  from t3 p3 f4
  have p4: "listTools (env_down 50000) ?reg3 ''weather'' = (Inr weatherTools, ?reg3, [])"
    by blast
  from t3 p3 p4 e3
  have p5: "fetches ([Connect ''weather'', ListTools ''weather''] @ []) \<le> 1"
    by (elim conjE allE [where x = weatherTools]) auto
  from f1 p1 a2 c2 p2 p3 p4 p5 show ?thesis by simp
qed

text \<open>
  The claim as stated fails for two calls, within the time to live and with no
  invalidation between them, that are not a call that returned tools followed by a later
  call. When the fetch of the first call fails, nothing is stored and the second call
  fetches again. When the second call arrives while the first waits for the answer of the
  upstream, neither finds a snapshot: both fetch, both return the tools, and the snapshot
  of the second replaces the one of the first.
\<close>

theorem C1_two_calls_two_fetches:
  "fst (listTools (env_calculator_fails 5) reg_new ''calculator'') = Inl ''Request timed out''
   \<and> Date_now (env_calculator_fails 6) - Date_now (env_calculator_fails 5) < cacheTtlMs reg_new
   \<and> fetches (snd (snd (listTools (env_calculator_fails 5) reg_new ''calculator'')) @
               snd (snd (listTools (env_calculator_fails 6)
                           (fst (snd (listTools (env_calculator_fails 5) reg_new ''calculator'')))
                           ''calculator''))) = 2
   \<and> Date_now (env_up 6) - Date_now (env_up 5) < cacheTtlMs reg_new
   \<and> fst (listTools_overlapped (env_up 5) (env_up 6) reg_new ''weather'') = Inr weatherTools
   \<and> fst (snd (listTools_overlapped (env_up 5) (env_up 6) reg_new ''weather''))
       = Inr weatherTools
   \<and> snd (snd (snd (listTools_overlapped (env_up 5) (env_up 6) reg_new ''weather'')))
       = [Connect ''weather'', ListTools ''weather'', ListTools ''weather'']
   \<and> fetches (snd (snd (snd (listTools_overlapped (env_up 5) (env_up 6) reg_new ''weather''))))
       = 2
   \<and> snapshot_of (fst (snd (snd (listTools_overlapped (env_up 5) (env_up 6) reg_new ''weather''))))
        ''weather'' = Some \<lparr>tools = weatherTools, fetchedAt = 6\<rparr>"
  by code_simp

section \<open>Failures and the state of the registry\<close>

lemma getClient_error_unchanged:
  "getClient env reg sid = (Inl err, reg', cs) \<Longrightarrow> reg' = reg"
  using getClient_cases by blast

lemma listTools_error_frame:
  assumes "listTools env reg sid = (Inl err, reg', cs)"
  shows "cache_of reg' = cache_of reg \<and> configs_of reg' = configs_of reg
         \<and> cacheTtlMs reg' = cacheTtlMs reg \<and> snapshot_of reg' sid = snapshot_of reg sid
         \<and> (reg' = reg \<or> (\<exists>c. connected c \<and> reg' = set_client sid (Some c) reg))"
proof -
  from listTools_cases [OF assms]
  consider "reg' = reg"
    | c pre where "getClient env reg sid = (Inr c, reg', pre)"
    by auto
  then show ?thesis
  proof cases
    case 1
    then show ?thesis by simp
  next
    case 2
    from getClient_cases [OF 2] getClient_ok_frame [OF 2] show ?thesis by auto
  qed
qed

lemma getClient_retry:
  assumes f: "getClient env reg sid = (Inl err, reg', cs)"
    and m: "map_of (servers reg) sid = Some server"
    and t: "transport (config server) = StdioTransport cmd as"
    and s: "node_spawn env2 cmd as = None"
    and c: "sdk_connect env2 sid = None"
  shows "getClient env2 reg' sid =
           (Inr (StdioMcpClient sid cmd as True True),
            set_client sid (Some (StdioMcpClient sid cmd as True True)) reg, [Connect sid])
         \<and> client_of (set_client sid (Some (StdioMcpClient sid cmd as True True)) reg) sid
             = Some (StdioMcpClient sid cmd as True True)"
proof -
  from f have r: "reg' = reg" by (rule getClient_error_unchanged)
  from f m have n: "\<not> (case client server of Some c \<Rightarrow> connected c | None \<Rightarrow> False)"
    by (auto simp: getClient_def split: option.splits)
  from n m t s c r show ?thesis
    by (simp add: getClient_def client_of_def map_of_set_client)
qed

text \<open>
  C3. A failing operation leaves the registry as the claim says. If \<^verbatim>\<open>getClient\<close>
  fails, the registry it leaves is the registry it found: the call stored no client, and
  a later call for a stdio upstream whose connect then succeeds (the process starts and
  the SDK connects) returns a connected client and stores it. If \<^verbatim>\<open>listTools\<close>
  fails, the snapshot of the id, and the snapshots and configurations of all ids, are
  the ones found: nothing was written and nothing evicted;
  the only field that may have changed is the client of the id, when the connect succeeded
  before the fetch failed.
\<close>

theorem C3_errors_leave_state:
  "(\<forall>err reg' cs. getClient env reg sid = (Inl err, reg', cs) \<longrightarrow>
       reg' = reg \<and> client_of reg' sid = client_of reg sid)
   \<and> (\<forall>err reg' cs server cmd as.
        getClient env reg sid = (Inl err, reg', cs) \<and> map_of (servers reg) sid = Some server
        \<and> transport (config server) = StdioTransport cmd as
        \<and> node_spawn env2 cmd as = None \<and> sdk_connect env2 sid = None \<longrightarrow>
        (\<exists>c reg2. getClient env2 reg' sid = (Inr c, reg2, [Connect sid])
            \<and> connected c \<and> client_of reg2 sid = Some c))
   \<and> (\<forall>err reg' cs. listTools env reg sid = (Inl err, reg', cs) \<longrightarrow>
       snapshot_of reg' sid = snapshot_of reg sid
       \<and> cache_of reg' = cache_of reg \<and> configs_of reg' = configs_of reg
       \<and> cacheTtlMs reg' = cacheTtlMs reg
       \<and> (reg' = reg \<or> (\<exists>c. connected c \<and> reg' = set_client sid (Some c) reg)))"
proof (intro conjI allI impI)
  fix err reg' cs
  assume "getClient env reg sid = (Inl err, reg', cs)"
  from getClient_error_unchanged [OF this]
  show "reg' = reg" and "client_of reg' sid = client_of reg sid" by simp_all
next
  fix err reg' cs server cmd as
  assume a: "getClient env reg sid = (Inl err, reg', cs) \<and> map_of (servers reg) sid = Some server
        \<and> transport (config server) = StdioTransport cmd as
        \<and> node_spawn env2 cmd as = None \<and> sdk_connect env2 sid = None"
  then have "getClient env2 reg' sid =
           (Inr (StdioMcpClient sid cmd as True True),
            set_client sid (Some (StdioMcpClient sid cmd as True True)) reg, [Connect sid])
         \<and> client_of (set_client sid (Some (StdioMcpClient sid cmd as True True)) reg) sid
             = Some (StdioMcpClient sid cmd as True True)"
    using getClient_retry by blast
  then show "\<exists>c reg2. getClient env2 reg' sid = (Inr c, reg2, [Connect sid])
            \<and> connected c \<and> client_of reg2 sid = Some c"
    by (intro exI [where x = "StdioMcpClient sid cmd as True True"]
          exI [where x = "set_client sid (Some (StdioMcpClient sid cmd as True True)) reg"]) simp
next
  fix err reg' cs
  assume "listTools env reg sid = (Inl err, reg', cs)"
  from listTools_error_frame [OF this]
  show "snapshot_of reg' sid = snapshot_of reg sid" "cache_of reg' = cache_of reg"
    "configs_of reg' = configs_of reg" "cacheTtlMs reg' = cacheTtlMs reg"
    "reg' = reg \<or> (\<exists>c. connected c \<and> reg' = set_client sid (Some c) reg)"
    by blast+
qed

theorem C3_errors_leave_state_witness:
  "getClient (env_down 5) reg_new ''weather''
     = (Inl (failed_to_connect ''weather'' ''spawn node ENOENT''), reg_new, [Connect ''weather''])
   \<and> client_of reg_new ''weather'' = None
   \<and> fst (getClient (env_up 6) reg_new ''weather'')
       = Inr (StdioMcpClient ''weather'' ''node'' [] True True)
   \<and> fst (listTools (env_down 70000) reg_cached ''weather'') = Inl ''Not connected''
   \<and> snapshot_of (fst (snd (listTools (env_down 70000) reg_cached ''weather''))) ''weather''
       = Some \<lparr>tools = weatherTools, fetchedAt = 1000\<rparr>
   \<and> cache_of (fst (snd (listTools (env_down 70000) reg_cached ''weather''))) = cache_of reg_cached
   \<and> fst (listTools (env_calculator_fails 5) reg_new ''calculator'') = Inl ''Request timed out''
   \<and> cache_of (fst (snd (listTools (env_calculator_fails 5) reg_new ''calculator'')))
       = cache_of reg_new"
proof -
  let ?g = "getClient (env_down 5) reg_new ''weather''"
  have g1: "fst ?g = Inl (failed_to_connect ''weather'' ''spawn node ENOENT'')" by code_simp
  have g3: "snd (snd ?g) = [Connect ''weather'']" by code_simp
  from g1 g3 have g: "?g = (Inl (failed_to_connect ''weather'' ''spawn node ENOENT''),
      fst (snd ?g), [Connect ''weather''])"
    by (metis prod.collapse)
  note t1 = C3_errors_leave_state [of "env_down 5" reg_new "''weather''" "env_up 6"]
  from t1 [THEN conjunct1, rule_format, OF g] have g2: "fst (snd ?g) = reg_new" by simp
  have c: "client_of reg_new ''weather'' = None" by code_simp
  let ?l = "listTools (env_down 70000) reg_cached ''weather''"
  have l1: "fst ?l = Inl ''Not connected''" by code_simp
  then have l: "?l = (Inl ''Not connected'', fst (snd ?l), snd (snd ?l))"
    by (metis prod.collapse)
  have s: "snapshot_of reg_cached ''weather'' = Some \<lparr>tools = weatherTools, fetchedAt = 1000\<rparr>"
    by code_simp
  have r: "fst (getClient (env_up 6) reg_new ''weather'')
       = Inr (StdioMcpClient ''weather'' ''node'' [] True True)"
    by code_simp
  note t2 = C3_errors_leave_state [of "env_down 70000" reg_cached "''weather''" "env_up 6"]
  from t2 [THEN conjunct2, THEN conjunct2, rule_format, OF l] s
  have l2: "snapshot_of (fst (snd ?l)) ''weather''
       = Some \<lparr>tools = weatherTools, fetchedAt = 1000\<rparr>"
    and l3: "cache_of (fst (snd ?l)) = cache_of reg_cached"
    by simp_all
  let ?k = "listTools (env_calculator_fails 5) reg_new ''calculator''"
  have k1: "fst ?k = Inl ''Request timed out''" by code_simp
  then have k: "?k = (Inl ''Request timed out'', fst (snd ?k), snd (snd ?k))"
    by (metis prod.collapse)
  note t3 = C3_errors_leave_state [of "env_calculator_fails 5" reg_new "''calculator''" "env_up 6"]
  from t3 [THEN conjunct2, THEN conjunct2, rule_format, OF k]
  have k2: "cache_of (fst (snd ?k)) = cache_of reg_new"
    by simp
  from g g2 c r l1 l2 l3 k1 k2 show ?thesis by simp
qed

section \<open>Shutdown keeps the cache\<close>

lemma closeAll_servers:
  "servers (fst (closeAll reg)) = map (\<lambda>(k, server). (k, server\<lparr>client := None\<rparr>)) (servers reg)"
  by (auto simp: closeAll_def)

lemma closeAll_frame:
  "configs_of (fst (closeAll reg)) = configs_of reg"
  "cache_of (fst (closeAll reg)) = cache_of reg"
  "cacheTtlMs (fst (closeAll reg)) = cacheTtlMs reg"
  "getServerIds (fst (closeAll reg)) = getServerIds reg"
proof -
  show "configs_of (fst (closeAll reg)) = configs_of reg"
    by (simp add: configs_of_def closeAll_servers case_prod_unfold)
  show "cache_of (fst (closeAll reg)) = cache_of reg"
    by (simp add: cache_of_def closeAll_servers case_prod_unfold)
  show "cacheTtlMs (fst (closeAll reg)) = cacheTtlMs reg"
    by (simp add: closeAll_def)
  show "getServerIds (fst (closeAll reg)) = getServerIds reg"
    by (simp add: getServerIds_def closeAll_servers case_prod_unfold)
qed

lemma closeAll_map_of:
  "map_of (servers (fst (closeAll reg))) k =
     map_option (\<lambda>server. server\<lparr>client := None\<rparr>) (map_of (servers reg) k)"
  by (simp add: closeAll_servers map_of_map)

lemma closeAll_lookup:
  "snapshot_of (fst (closeAll reg)) k = snapshot_of reg k"
  "client_of (fst (closeAll reg)) k = None"
  by (simp_all add: snapshot_of_def client_of_def closeAll_map_of split: option.splits)

lemma closeAll_fresh: "fresh env (fst (closeAll reg)) sid = fresh env reg sid"
  by (simp add: fresh_def closeAll_lookup closeAll_frame split: option.splits)

text \<open>
  C8. \<^verbatim>\<open>closeAll\<close> changes client references only: the configurations, the
  snapshots and the time to live are the ones found, and every client reference is null
  afterwards. So a \<^verbatim>\<open>listTools\<close> after it, at a time when the snapshot of the id is
  still fresh, returns the cached tools, leaves the registry as \<^verbatim>\<open>closeAll\<close> left it
  and makes no call on a client: it does not reconnect.
\<close>

theorem C8_closeAll_keeps_cache:
  "configs_of (fst (closeAll reg)) = configs_of reg
   \<and> cache_of (fst (closeAll reg)) = cache_of reg
   \<and> cacheTtlMs (fst (closeAll reg)) = cacheTtlMs reg
   \<and> (\<forall>k. client_of (fst (closeAll reg)) k = None)
   \<and> (fresh env reg sid \<longrightarrow>
        listTools env (fst (closeAll reg)) sid =
          (Inr (tools (the (snapshot_of reg sid))), fst (closeAll reg), []))"
proof -
  have "fresh env reg sid \<longrightarrow>
        listTools env (fst (closeAll reg)) sid =
          (Inr (tools (the (snapshot_of reg sid))), fst (closeAll reg), [])"
  proof
    assume "fresh env reg sid"
    then have "fresh env (fst (closeAll reg)) sid" by (simp add: closeAll_fresh)
    from listTools_hit [OF this] show "listTools env (fst (closeAll reg)) sid =
          (Inr (tools (the (snapshot_of reg sid))), fst (closeAll reg), [])"
      by (simp add: closeAll_lookup)
  qed
  then show ?thesis by (simp add: closeAll_frame closeAll_lookup)
qed

theorem C8_closeAll_keeps_cache_witness:
  "snd (closeAll reg_cached) = [Close ''weather'']
   \<and> client_of reg_cached ''weather'' = Some (StdioMcpClient ''weather'' ''node'' [] True True)
   \<and> client_of (fst (closeAll reg_cached)) ''weather'' = None
   \<and> cache_of (fst (closeAll reg_cached)) = cache_of reg_cached
   \<and> fresh (env_down 5000) reg_cached ''weather''
   \<and> listTools (env_down 5000) (fst (closeAll reg_cached)) ''weather''
       = (Inr weatherTools, fst (closeAll reg_cached), [])"
proof -
  have c: "snd (closeAll reg_cached) = [Close ''weather'']" by code_simp
  have b: "client_of reg_cached ''weather'' = Some (StdioMcpClient ''weather'' ''node'' [] True True)"
    by code_simp
  have f: "fresh (env_down 5000) reg_cached ''weather''" by code_simp
  have s: "tools (the (snapshot_of reg_cached ''weather'')) = weatherTools" by code_simp
  from C8_closeAll_keeps_cache [of reg_cached "env_down 5000" "''weather''"] f s c b
  show ?thesis by simp
qed

section \<open>Unregistered ids\<close>

lemma callTool_unknown:
  "map_of (servers reg) sid = None \<Longrightarrow>
   callTool env reg sid tname targs = (Inl (unknown_server sid), reg, [])"
  by (simp add: callTool_def getClient_unknown)

lemma invalidateCache_unregistered:
  "sid \<noteq> [] \<Longrightarrow> map_of (servers reg) sid = None \<Longrightarrow> invalidateCache reg (Some sid) = reg"
  by (simp add: invalidateCache_def)

lemma unregistered_operations:
  assumes "\<not> hasServer reg sid"
  shows "fst (getClient env reg sid) = Inl (unknown_server sid)"
    and "fst (listTools env reg sid) = Inl (unknown_server sid)"
    and "fst (callTool env reg sid tname targs) = Inl (unknown_server sid)"
    and "sid \<noteq> [] \<Longrightarrow> invalidateCache reg (Some sid) = reg"
  using assms
  by (simp_all add: hasServer_def getClient_unknown listTools_unknown callTool_unknown
        invalidateCache_unregistered)

text \<open>
  C9. The claim holds for every unregistered id except the empty string. The test
  \<^verbatim>\<open>if (serverId)\<close> sends the empty string, like \<^verbatim>\<open>undefined\<close>, to the branch that
  clears every snapshot: in the registry \<open>reg_cached\<close>, where the empty string is not
  registered and \<^verbatim>\<open>weather\<close> has a snapshot, \<^verbatim>\<open>invalidateCache("")\<close> removes that
  snapshot and so changes the registry, while \<^verbatim>\<open>invalidateCache("nope")\<close> leaves it
  as it is.
\<close>

theorem C9_empty_id_clears_every_snapshot:
  "\<not> hasServer reg_cached []
   \<and> snapshot_of reg_cached ''weather'' = Some \<lparr>tools = weatherTools, fetchedAt = 1000\<rparr>
   \<and> snapshot_of (invalidateCache reg_cached (Some [])) ''weather'' = None
   \<and> invalidateCache reg_cached (Some []) \<noteq> reg_cached
   \<and> \<not> hasServer reg_cached ''nope''
   \<and> invalidateCache reg_cached (Some ''nope'') = reg_cached"
proof -
  have a: "\<not> hasServer reg_cached []" by code_simp
  have b: "snapshot_of reg_cached ''weather'' = Some \<lparr>tools = weatherTools, fetchedAt = 1000\<rparr>"
    by code_simp
  have c: "snapshot_of (invalidateCache reg_cached (Some [])) ''weather'' = None"
    by code_simp
  from b c have d: "invalidateCache reg_cached (Some []) \<noteq> reg_cached" by auto
  have e: "\<not> hasServer reg_cached ''nope''" by code_simp
  from unregistered_operations(4) [OF e]
  have f: "invalidateCache reg_cached (Some ''nope'') = reg_cached" by simp
  from a b c d e f show ?thesis by simp
qed

section \<open>How the errors of a client reach the caller\<close>













section \<open>Listing every upstream\<close>

lemma listTools_slot:
  assumes "map_of (servers r1) sid = map_of (servers r2) sid"
    and "cacheTtlMs r1 = cacheTtlMs r2"
  shows "fst (listTools env r1 sid) = fst (listTools env r2 sid)"
proof (cases "map_of (servers r2) sid")
  case None
  with assms show ?thesis by (simp add: listTools_def)
next
  case (Some server)
  have g: "fst (getClient env r1 sid) = fst (getClient env r2 sid)"
    using assms(1) Some
    by (auto simp: getClient_def split: option.splits prod.splits)
  show ?thesis
    using assms Some g
    by (auto simp: listTools_def Let_def split: option.splits prod.splits sum.splits)
qed

lemma getClient_reg:
  "getClient env reg sid = (r, reg1, pre) \<Longrightarrow>
   reg1 = reg \<or> (\<exists>c. reg1 = set_client sid (Some c) reg)"
  using getClient_cases by blast

lemma listTools_reg:
  assumes "listTools env reg sid = (r, reg', cs)"
  shows "reg' = reg
      \<or> (\<exists>c. reg' = set_client sid (Some c) reg)
      \<or> (\<exists>s. reg' = set_cachedTools sid s reg)
      \<or> (\<exists>c s. reg' = set_cachedTools sid s (set_client sid (Some c) reg))"
proof -
  from listTools_cases [OF assms]
  consider "reg' = reg"
    | c reg1 pre where "getClient env reg sid = (Inr c, reg1, pre)" "reg' = reg1"
    | c reg1 pre s where "getClient env reg sid = (Inr c, reg1, pre)"
        "reg' = set_cachedTools sid s reg1"
    by blast
  then show ?thesis
  proof cases
    case 1
    then show ?thesis by simp
  next
    case 2
    with getClient_reg [OF 2(1)] show ?thesis by blast
  next
    case 3
    with getClient_reg [OF 3(1)] show ?thesis by blast
  qed
qed

lemma listTools_other_slot:
  assumes "listTools env reg sid = (r, reg', cs)"
  shows "k \<noteq> sid \<Longrightarrow> map_of (servers reg') k = map_of (servers reg) k"
    and "cacheTtlMs reg' = cacheTtlMs reg"
    and "getServerIds reg' = getServerIds reg"
  using listTools_reg [OF assms]
  by (auto simp: map_of_set_client map_of_set_cachedTools set_client_frame set_cachedTools_frame)

lemma listAllTools_each_props:
  assumes "distinct sids"
  shows "map fst (fst (listAllTools_each env sids reg)) = sids
     \<and> (\<forall>sid \<in> set sids.
           map_of (fst (listAllTools_each env sids reg)) sid
             = Some (tools_or_empty (fst (listTools env reg sid))))
     \<and> getServerIds (fst (snd (listAllTools_each env sids reg))) = getServerIds reg"
  using assms
proof (induction sids arbitrary: reg)
  case Nil
  then show ?case by simp
next
  case (Cons sid sids)
  obtain r reg1 cs1 where l: "listTools env reg sid = (r, reg1, cs1)"
    by (cases "listTools env reg sid") auto
  obtain rest reg2 cs2 where e: "listAllTools_each env sids reg1 = (rest, reg2, cs2)"
    by (cases "listAllTools_each env sids reg1") auto
  from Cons.prems have d: "distinct sids" and n: "sid \<notin> set sids" by simp_all
  from Cons.IH [OF d, of reg1] e
  have ih1: "map fst rest = sids"
    and ih2: "\<forall>k \<in> set sids. map_of rest k = Some (tools_or_empty (fst (listTools env reg1 k)))"
    and ih3: "getServerIds reg2 = getServerIds reg1"
    by simp_all
  have same: "\<And>k. k \<in> set sids \<Longrightarrow> fst (listTools env reg1 k) = fst (listTools env reg k)"
  proof -
    fix k
    assume "k \<in> set sids"
    with n have "k \<noteq> sid" by auto
    from listTools_other_slot(1) [OF l this] listTools_other_slot(2) [OF l]
    show "fst (listTools env reg1 k) = fst (listTools env reg k)"
      by (rule listTools_slot)
  qed
  have res: "listAllTools_each env (sid # sids) reg =
      ((sid, tools_or_empty r) # rest, reg2, cs1 @ cs2)"
    using l e by (simp add: tools_or_empty_def)
  show ?case
    unfolding res using ih1 ih2 ih3 n l same listTools_other_slot(3) [OF l]
    by auto
qed

lemma update_fresh_key:
  "k \<notin> fst ` set al \<Longrightarrow> AList.update k v al = al @ [(k, v)]"
  by (induction al) auto

lemma fold_update_distinct:
  "distinct (map fst trs) \<Longrightarrow> fst ` set trs \<inter> fst ` set acc = {} \<Longrightarrow>
   fold (\<lambda>(sid, ts) results. AList.update sid ts results) trs acc = acc @ trs"
proof (induction trs arbitrary: acc)
  case Nil
  then show ?case by simp
next
  case (Cons p trs)
  obtain k v where p: "p = (k, v)" by (cases p)
  from Cons.prems p have k: "k \<notin> fst ` set acc" by auto
  from Cons.prems p have "distinct (map fst trs)"
    and "fst ` set trs \<inter> fst ` set (acc @ [(k, v)]) = {}"
    by auto
  from Cons.IH [OF this] p k show ?case by (simp add: update_fresh_key)
qed

lemma listAllTools_results:
  assumes "registry_ok reg"
  shows "fst (listAllTools env reg) = fst (listAllTools_each env (getServerIds reg) reg)"
proof -
  from assms have d: "distinct (getServerIds reg)"
    by (simp add: registry_ok_def getServerIds_def)
  from listAllTools_each_props [OF d, of env reg]
  have "distinct (map fst (fst (listAllTools_each env (getServerIds reg) reg)))"
    using d by simp
  from fold_update_distinct [OF this, of "[]"]
  have f: "fold (\<lambda>(sid, ts) results. AList.update sid ts results)
             (fst (listAllTools_each env (getServerIds reg) reg)) []
           = fst (listAllTools_each env (getServerIds reg) reg)"
    by simp
  obtain trs reg' cs where e: "listAllTools_each env (getServerIds reg) reg = (trs, reg', cs)"
    by (cases "listAllTools_each env (getServerIds reg) reg") auto
  with f show ?thesis by (simp add: listAllTools_def)
qed

text \<open>
  C2. For every registry whose ids are distinct, as the keys of a map are, and every
  world: the map that \<^verbatim>\<open>listAllTools\<close> returns has exactly the registered ids as its
  keys, in their order, one entry each; an id whose \<^verbatim>\<open>listTools\<close> fails has the empty
  list, and an id whose \<^verbatim>\<open>listTools\<close> returns tools has those tools. The operation
  has no error result: a failure of one id is caught in the callback of that id.
\<close>

theorem C2_listAllTools_covers_ids:
  assumes "registry_ok reg"
  shows "map fst (fst (listAllTools env reg)) = getServerIds reg
     \<and> length (fst (listAllTools env reg)) = length (getServerIds reg)
     \<and> (\<forall>sid \<in> set (getServerIds reg).
           (\<forall>err. fst (listTools env reg sid) = Inl err \<longrightarrow>
                  map_of (fst (listAllTools env reg)) sid = Some [])
         \<and> (\<forall>ts. fst (listTools env reg sid) = Inr ts \<longrightarrow>
                  map_of (fst (listAllTools env reg)) sid = Some ts))"
proof -
  from assms have d: "distinct (getServerIds reg)"
    by (simp add: registry_ok_def getServerIds_def)
  note p = listAllTools_each_props [OF d, of env reg]
  note r = listAllTools_results [OF assms, of env]
  from p have k: "map fst (fst (listAllTools env reg)) = getServerIds reg"
    unfolding r by simp
  then have "length (map fst (fst (listAllTools env reg))) = length (getServerIds reg)"
    by simp
  then have n: "length (fst (listAllTools env reg)) = length (getServerIds reg)"
    by simp
  from p have v: "\<forall>sid \<in> set (getServerIds reg).
       map_of (fst (listAllTools env reg)) sid = Some (tools_or_empty (fst (listTools env reg sid)))"
    unfolding r by simp
  from k n v show ?thesis by (auto simp: tools_or_empty_def)
qed

theorem C2_listAllTools_covers_ids_witness:
  "registry_ok reg_new
   \<and> getServerIds reg_new = [''weather'', ''calculator'', ''remote'']
   \<and> map fst (fst (listAllTools (env_calculator_fails 5) reg_new))
       = [''weather'', ''calculator'', ''remote'']
   \<and> fst (listTools (env_calculator_fails 5) reg_new ''calculator'') = Inl ''Request timed out''
   \<and> map_of (fst (listAllTools (env_calculator_fails 5) reg_new)) ''calculator'' = Some []
   \<and> fst (listTools (env_calculator_fails 5) reg_new ''weather'') = Inr weatherTools
   \<and> map_of (fst (listAllTools (env_calculator_fails 5) reg_new)) ''weather'' = Some weatherTools"
proof -
  have ok: "registry_ok reg_new"
    unfolding reg_new_def by (rule new_ServerRegistry_ok)
  have ids: "getServerIds reg_new = [''weather'', ''calculator'', ''remote'']" by code_simp
  have c: "fst (listTools (env_calculator_fails 5) reg_new ''calculator'') = Inl ''Request timed out''"
    by code_simp
  have w: "fst (listTools (env_calculator_fails 5) reg_new ''weather'') = Inr weatherTools"
    by code_simp
  note t = C2_listAllTools_covers_ids [OF ok, of "env_calculator_fails 5"]
  from t ids have k: "map fst (fst (listAllTools (env_calculator_fails 5) reg_new))
       = [''weather'', ''calculator'', ''remote'']"
    by simp
  from t ids c have pc: "map_of (fst (listAllTools (env_calculator_fails 5) reg_new)) ''calculator''
       = Some []"
    by simp
  from t ids w have pw: "map_of (fst (listAllTools (env_calculator_fails 5) reg_new)) ''weather''
       = Some weatherTools"
    by simp
  from ok ids k c pc w pw show ?thesis by simp
qed


section \<open>The keys of the registry stay distinct\<close>

lemma registry_ok_ids: "getServerIds reg' = getServerIds reg \<Longrightarrow> registry_ok reg' = registry_ok reg"
  by (simp add: registry_ok_def getServerIds_def)

lemma invalidateCache_ids: "getServerIds (invalidateCache reg sid_arg) = getServerIds reg"
proof -
  have "getServerIds (reg\<lparr>servers := map (\<lambda>(k, server). (k, server\<lparr>cachedTools := None\<rparr>))
                                   (servers reg)\<rparr>) = getServerIds reg"
    by (simp add: getServerIds_def case_prod_unfold)
  then show ?thesis
    by (simp add: invalidateCache_def set_cachedTools_frame split: option.splits)
qed

lemma registry_ok_preserved:
  "getClient env reg sid = (rc, reg1, cs1) \<Longrightarrow> registry_ok reg1 = registry_ok reg"
  "listTools env reg sid = (rl, reg2, cs2) \<Longrightarrow> registry_ok reg2 = registry_ok reg"
  "callTool env reg sid tname targs = (rt, reg3, cs3) \<Longrightarrow> registry_ok reg3 = registry_ok reg"
  "registry_ok (fst (closeAll reg)) = registry_ok reg"
  "registry_ok (invalidateCache reg sid_arg) = registry_ok reg"
  "registry_ok reg \<Longrightarrow> registry_ok (fst (snd (listAllTools env reg)))"
proof -
  show g: "\<And>rc reg1 cs1. getClient env reg sid = (rc, reg1, cs1) \<Longrightarrow>
        registry_ok reg1 = registry_ok reg"
    using getClient_reg [of env reg sid]
    by (auto simp: set_client_frame intro!: registry_ok_ids)
  show "listTools env reg sid = (rl, reg2, cs2) \<Longrightarrow> registry_ok reg2 = registry_ok reg"
    by (rule registry_ok_ids) (rule listTools_other_slot(3))
  show "callTool env reg sid tname targs = (rt, reg3, cs3) \<Longrightarrow> registry_ok reg3 = registry_ok reg"
    using g by (auto simp: callTool_def split: prod.splits sum.splits)
  show "registry_ok (fst (closeAll reg)) = registry_ok reg"
    by (rule registry_ok_ids) (rule closeAll_frame(4))
  show "registry_ok (invalidateCache reg sid_arg) = registry_ok reg"
    by (rule registry_ok_ids) (rule invalidateCache_ids)
  show "registry_ok reg \<Longrightarrow> registry_ok (fst (snd (listAllTools env reg)))"
  proof -
    assume ok: "registry_ok reg"
    then have d: "distinct (getServerIds reg)" by (simp add: registry_ok_def getServerIds_def)
    from listAllTools_each_props [OF d, of env reg]
    have "getServerIds (fst (snd (listAllTools_each env (getServerIds reg) reg))) = getServerIds reg"
      by simp
    moreover have "fst (snd (listAllTools env reg))
        = fst (snd (listAllTools_each env (getServerIds reg) reg))"
      by (simp add: listAllTools_def split: prod.splits)
    ultimately show ?thesis using ok registry_ok_ids by metis
  qed
qed

end
